theory Spec2Isabelle
  imports Main "HOL-Library.Word"
begin

unbundle bit_operations_syntax

section \<open>Byte buffers\<close>

type_synonym u8 = "8 word"
type_synonym u32 = "32 word"
type_synonym u64 = "64 word"

text \<open>
  Faults of the C++ code that the model keeps as values: a failed \<open>assert\<close> of
  \<open>ArrayRef::slice\<close>, and a read past the end of the memory an \<open>ArrayRef\<close> points into.
\<close>

datatype error = AssertionFailed | OutOfBounds

text \<open>
  \<open>ArrayRef<uint8_t>\<close> is a pointer and a length. \<open>data\<close> is the readable memory from the
  pointer on (the rest of the section contents), \<open>size\<close> the length the reference claims.
  The two agree on a reference to a whole buffer; \<open>slice\<close> can produce one that claims more
  than there is, because its assertion is evaluated in wrapping \<open>size_t\<close> arithmetic.
\<close>

record ArrayRef =
  ar_data :: "u8 list"
  ar_size :: u64

definition arrayRefFromBytes :: "u8 list \<Rightarrow> ArrayRef" where
  "arrayRefFromBytes bs = \<lparr>ar_data = bs, ar_size = word_of_nat (length bs)\<rparr>"

text \<open>A reference to a real allocation: no C++ object exceeds \<open>PTRDIFF_MAX\<close> bytes.\<close>

definition wf_ArrayRef :: "ArrayRef \<Rightarrow> bool" where
  "wf_ArrayRef A \<longleftrightarrow> length (ar_data A) = unat (ar_size A) \<and> length (ar_data A) < 2 ^ 63"

text \<open>
  \<open>slice(N, M)\<close>: \<open>assert(N+M <= size()); return ArrayRef(data()+N, M)\<close>.
  \<open>slice(N)\<close> is \<open>slice(N, size() - N)\<close>.
\<close>

definition slice :: "ArrayRef \<Rightarrow> u64 \<Rightarrow> u64 \<Rightarrow> error + ArrayRef" where
  "slice A N M =
     (if N + M \<le> ar_size A then Inr \<lparr>ar_data = drop (unat N) (ar_data A), ar_size = M\<rparr>
      else Inl AssertionFailed)"

definition slice_from :: "ArrayRef \<Rightarrow> u64 \<Rightarrow> error + ArrayRef" where
  "slice_from A N = slice A N (ar_size A - N)"

section \<open>Zero skipping\<close>

text \<open>
  The loop \<open>while (N < Buf.size() && !Buf[N]) ++N\<close> of \<open>countSkippableZeroBytes\<close>.
  \<open>N\<close> stays below \<open>Buf.size()\<close>, so it is counted in \<open>nat\<close>.
\<close>

function countLeadingZeroes :: "ArrayRef \<Rightarrow> nat \<Rightarrow> error + nat" where
  "countLeadingZeroes Buf N =
     (if N < unat (ar_size Buf) then
        (if N < length (ar_data Buf) then
           (if ar_data Buf ! N = 0 then countLeadingZeroes Buf (N + 1) else Inr N)
         else Inl OutOfBounds)
      else Inr N)"
  by pat_completeness auto
termination
  by (relation "measure (\<lambda>(Buf, N). length (ar_data Buf) - N)") auto

declare countLeadingZeroes.simps [simp del]

definition countSkippableZeroBytes :: "ArrayRef \<Rightarrow> error + u64" where
  "countSkippableZeroBytes Buf =
     (case countLeadingZeroes Buf 0 of
        Inl e \<Rightarrow> Inl e
      | Inr N \<Rightarrow> if N < 8 then Inr 0 else Inr ((word_of_nat N :: u64) AND NOT 3))"

text \<open>
  The skip window of the driver: \<open>MaxOffset = End - Index\<close>, replaced by
  \<open>RelCur->getOffset() - Index\<close> when a relocation is pending; both subtractions are
  \<open>uint64_t\<close> and wrap.
\<close>

definition skipWindow :: "ArrayRef \<Rightarrow> u64 \<Rightarrow> u64 \<Rightarrow> u64 option \<Rightarrow> error + ArrayRef" where
  "skipWindow Bytes Index End RelCurOffset =
     (let MaxOffset = (case RelCurOffset of None \<Rightarrow> End - Index | Some Off \<Rightarrow> Off - Index)
      in slice Bytes Index MaxOffset)"

section \<open>Symbols\<close>

text \<open>
  Modelled from the spec: the \<open>ELF::STT_*\<close> symbol types are declared outside the sources
  at hand; only their names matter here.
\<close>

datatype elf_symbol_type =
  STT_NOTYPE | STT_OBJECT | STT_FUNC | STT_SECTION | STT_FILE | STT_COMMON | STT_TLS

text \<open>
  \<open>SymbolInfoTy\<close> as its constructors are called in the driver: an address, a name, and
  either an ELF symbol type or the XCOFF description (storage mapping class, symbol index,
  label flag).
\<close>

datatype symbol_kind =
  ElfType elf_symbol_type
| XCOFFSymInfo "nat option" "u32 option" bool

record SymbolInfoTy =
  Addr :: u64
  Name :: string
  Kind :: symbol_kind

type_synonym SectionSymbolsTy = "SymbolInfoTy list"

definition createDummySymbolInfo ::
  "bool \<Rightarrow> bool \<Rightarrow> u64 \<Rightarrow> string \<Rightarrow> elf_symbol_type \<Rightarrow> SymbolInfoTy" where
  "createDummySymbolInfo isXCOFF SymbolDescription A N T =
     (if isXCOFF \<and> SymbolDescription
      then \<lparr>Addr = A, Name = N, Kind = XCOFFSymInfo None None False\<rparr>
      else \<lparr>Addr = A, Name = N, Kind = ElfType T\<rparr>)"

text \<open>
  The driver, before it walks a section:
  \<open>if (Symbols.empty() || Symbols[0].Addr != 0) Symbols.insert(Symbols.begin(),
  createDummySymbolInfo(Obj, SectionAddr, SectionName, isText ? STT_FUNC : STT_OBJECT))\<close>.
\<close>

definition insertDummySymbol ::
  "bool \<Rightarrow> bool \<Rightarrow> u64 \<Rightarrow> string \<Rightarrow> bool \<Rightarrow> SectionSymbolsTy \<Rightarrow> SectionSymbolsTy" where
  "insertDummySymbol isXCOFF SymbolDescription SectionAddr SectionName isText Symbols =
     (let Dummy = createDummySymbolInfo isXCOFF SymbolDescription SectionAddr SectionName
                    (if isText then STT_FUNC else STT_OBJECT)
      in case Symbols of
           [] \<Rightarrow> [Dummy]
         | S # _ \<Rightarrow> if Addr S \<noteq> 0 then Dummy # Symbols else Symbols)"

subsection \<open>Sorting the symbol tables\<close>

text \<open>
  \<open>llvm::stable_sort\<close> with a comparator \<open>lt\<close>: sorted with respect to \<open>lt\<close>, elements
  that \<open>lt\<close> does not order keep their relative position. Each element is inserted, in
  discovery order, behind every element that is not greater than it.
\<close>

fun stable_insert :: "('a \<Rightarrow> 'a \<Rightarrow> bool) \<Rightarrow> 'a \<Rightarrow> 'a list \<Rightarrow> 'a list" where
  "stable_insert lt x [] = [x]"
| "stable_insert lt x (y # ys) =
     (if lt x y then x # y # ys else y # stable_insert lt x ys)"

definition stable_sort :: "('a \<Rightarrow> 'a \<Rightarrow> bool) \<Rightarrow> 'a list \<Rightarrow> 'a list" where
  "stable_sort lt xs = foldl (\<lambda>acc x. stable_insert lt x acc) [] xs"

text \<open>
  Modelled from the spec: \<open>operator<\<close> of \<open>SymbolInfoTy\<close>, which
  \<open>llvm::stable_sort(SecSyms.second)\<close> uses, is declared with the struct, outside the
  sources at hand. The spec gives the sort key: the address, ascending, and nothing else.
\<close>

definition SymbolInfoTy_less :: "SymbolInfoTy \<Rightarrow> SymbolInfoTy \<Rightarrow> bool" where
  "SymbolInfoTy_less P1 P2 \<longleftrightarrow> Addr P1 < Addr P2"

definition sortSymbols :: "SectionSymbolsTy \<Rightarrow> SectionSymbolsTy" where
  "sortSymbols Symbols = stable_sort SymbolInfoTy_less Symbols"

section \<open>Resolving a target address\<close>

text \<open>
  \<open>llvm::partition_point\<close> is the bisection of the C++ library: it keeps a range
  \<open>[first, first + len)\<close> and halves it on the predicate at its middle.
\<close>

function partition_point_loop :: "('a \<Rightarrow> bool) \<Rightarrow> 'a list \<Rightarrow> nat \<Rightarrow> nat \<Rightarrow> nat" where
  "partition_point_loop P xs first len =
     (if len = 0 then first
      else let half = len div 2; mid = first + half
           in if P (xs ! mid) then partition_point_loop P xs (mid + 1) (len - half - 1)
              else partition_point_loop P xs first half)"
  by pat_completeness auto
termination
  by (relation "measure (\<lambda>(P, xs, first, len). len)") auto

declare partition_point_loop.simps [simp del]

definition partition_point :: "'a list \<Rightarrow> ('a \<Rightarrow> bool) \<Rightarrow> nat" where
  "partition_point xs P = partition_point_loop P xs 0 (length xs)"

text \<open>
  The sections that may hold the target of a non-relocatable object: from the partition
  point of \<open>SectionAddresses\<close> downwards, while the base address stays that of the first
  section met. \<open>TargetSecAddr = 0\<close> stands for "not set yet", as in the source.
  A section is named by its index.
\<close>

fun collectTargetSections :: "(u64 \<times> nat) list \<Rightarrow> nat \<Rightarrow> u64 \<Rightarrow> nat list" where
  "collectTargetSections SectionAddresses 0 TargetSecAddr = []"
| "collectTargetSections SectionAddresses (Suc It) TargetSecAddr =
     (let TargetSecAddr' =
            (if TargetSecAddr = 0 then fst (SectionAddresses ! It) else TargetSecAddr)
      in if fst (SectionAddresses ! It) \<noteq> TargetSecAddr' then []
         else snd (SectionAddresses ! It)
              # collectTargetSections SectionAddresses It TargetSecAddr')"

definition targetSectionSymbols ::
  "bool \<Rightarrow> (u64 \<times> nat) list \<Rightarrow> (nat \<Rightarrow> SectionSymbolsTy) \<Rightarrow> SectionSymbolsTy \<Rightarrow>
   SectionSymbolsTy \<Rightarrow> u64 \<Rightarrow> SectionSymbolsTy list" where
  "targetSectionSymbols isRelocatableObject SectionAddresses AllSymbols Symbols
       AbsoluteSymbols Target =
     (if \<not> isRelocatableObject then
        map AllSymbols
          (collectTargetSections SectionAddresses
             (partition_point SectionAddresses (\<lambda>Sec. fst Sec \<le> Target)) 0)
      else [Symbols])
     @ [AbsoluteSymbols]"

fun findTargetSym :: "u64 \<Rightarrow> SectionSymbolsTy list \<Rightarrow> SymbolInfoTy option" where
  "findTargetSym Target [] = None"
| "findTargetSym Target (TargetSymbols # rest) =
     (let It = partition_point TargetSymbols (\<lambda>Sym. Addr Sym \<le> Target)
      in if It \<noteq> 0 then Some (TargetSymbols ! (It - 1)) else findTargetSym Target rest)"

definition resolveTarget ::
  "bool \<Rightarrow> (u64 \<times> nat) list \<Rightarrow> (nat \<Rightarrow> SectionSymbolsTy) \<Rightarrow> SectionSymbolsTy \<Rightarrow>
   SectionSymbolsTy \<Rightarrow> u64 \<Rightarrow> SymbolInfoTy option" where
  "resolveTarget isRelocatableObject SectionAddresses AllSymbols Symbols AbsoluteSymbols Target =
     findTargetSym Target
       (targetSectionSymbols isRelocatableObject SectionAddresses AllSymbols Symbols
          AbsoluteSymbols Target)"

subsection \<open>Printing the resolved target\<close>

text \<open>
  Modelled from the spec: \<open>Twine::utohexstr\<close> is declared outside the sources at hand; the
  spec writes the displacement as \<open>0x<hex>\<close>: hexadecimal digits, no leading zeros.
\<close>

definition hexDigit :: "nat \<Rightarrow> char" where
  "hexDigit d = ''0123456789abcdef'' ! d"

function utohexstr_nat :: "nat \<Rightarrow> string" where
  "utohexstr_nat n =
     (if n < 16 then [hexDigit n] else utohexstr_nat (n div 16) @ [hexDigit (n mod 16)])"
  by pat_completeness auto
termination
  by (relation "measure id") auto

declare utohexstr_nat.simps [simp del]

definition utohexstr :: "u64 \<Rightarrow> string" where
  "utohexstr X = utohexstr_nat (unat X)"

text \<open>
  What the driver appends to the instruction line once the target is known. \<open>AllLabels\<close> is
  the map from addresses to local labels; \<open>demangle\<close> is applied when \<open>Demangle\<close> is set.
\<close>

definition printTarget ::
  "bool \<Rightarrow> (string \<Rightarrow> string) \<Rightarrow> (u64 \<rightharpoonup> string) \<Rightarrow> u64 \<Rightarrow> SymbolInfoTy option \<Rightarrow> string" where
  "printTarget Demangle demangle AllLabels Target TargetSym =
     (let LabelAvailable = (AllLabels Target \<noteq> None)
      in case TargetSym of
           Some Sym \<Rightarrow>
             (let TargetAddress = Addr Sym;
                  Disp = Target - TargetAddress;
                  TargetName = (if Demangle then demangle (Name Sym) else Name Sym)
              in '' <'' @
                 (if Disp = 0 then TargetName
                  else if \<not> LabelAvailable then TargetName @ ''+0x'' @ utohexstr Disp
                  else the (AllLabels Target))
                 @ ''>'')
         | None \<Rightarrow>
             (if LabelAvailable then '' <'' @ the (AllLabels Target) @ ''>'' else ''''))"

section \<open>The live-variable columns\<close>

record SectionedAddress =
  Address :: u64
  SectionIndex :: u64

record DWARFAddressRange =
  LowPC :: u64
  HighPC :: u64
  RangeSectionIndex :: u64

text \<open>Of a \<open>LiveVariable\<close>, the range of its location expression and its name.\<close>

record LiveVariable =
  LocRange :: "DWARFAddressRange option"
  VarName :: string

definition liveAtAddress :: "LiveVariable \<Rightarrow> SectionedAddress \<Rightarrow> bool" where
  "liveAtAddress LV A =
     (case LocRange LV of
        None \<Rightarrow> False
      | Some R \<Rightarrow> RangeSectionIndex R = SectionIndex A \<and> LowPC R \<le> Address A
                  \<and> HighPC R > Address A)"

record Column =
  VarIdx :: u32
  LiveIn :: bool
  LiveOut :: bool
  MustDrawLabel :: bool

text \<open>\<open>std::numeric_limits<unsigned>::max()\<close>\<close>

definition NullVarIdx :: u32 where
  "NullVarIdx = - 1"

definition isActive :: "Column \<Rightarrow> bool" where
  "isActive C \<longleftrightarrow> VarIdx C \<noteq> NullVarIdx"

definition newColumn :: Column where
  "newColumn = \<lparr>VarIdx = NullVarIdx, LiveIn = False, LiveOut = False, MustDrawLabel = False\<rparr>"

text \<open>
  Modelled from the spec: \<open>IndexedMap::grow\<close> is declared outside the sources at hand. The
  spec has the column array grow by doubling, minimum 1: \<open>grow n\<close> makes the array hold
  \<open>n\<close> columns, the new ones inactive. The printer below takes its \<open>grow\<close> as a parameter
  \<open>G\<close>; this one stands for it in the examples.
\<close>

definition grow :: "Column list \<Rightarrow> nat \<Rightarrow> Column list" where
  "grow ActiveCols n = ActiveCols @ replicate (n - length ActiveCols) newColumn"

fun firstInactive :: "Column list \<Rightarrow> nat \<Rightarrow> nat option" where
  "firstInactive [] ColIdx = None"
| "firstInactive (C # Cs) ColIdx =
     (if \<not> isActive C then Some ColIdx else firstInactive Cs (ColIdx + 1))"

text \<open>\<open>findFreeColumn\<close>, with \<open>ActiveCols.grow\<close> as \<open>G\<close>.\<close>

definition findFreeColumn ::
  "(Column list \<Rightarrow> nat \<Rightarrow> Column list) \<Rightarrow> Column list \<Rightarrow> nat \<times> Column list" where
  "findFreeColumn G ActiveCols =
     (case firstInactive ActiveCols 0 of
        Some ColIdx \<Rightarrow> (ColIdx, ActiveCols)
      | None \<Rightarrow>
          (let OldSize = length ActiveCols
           in (OldSize, G ActiveCols (max (OldSize * 2) 1))))"

text \<open>
  Pass 1 of \<open>update\<close>, on one column. The variable of an active column is read from
  \<open>LiveVariables\<close> at its index, which pass 2 took from that vector.
\<close>

definition pass1 ::
  "LiveVariable list \<Rightarrow> SectionedAddress \<Rightarrow> SectionedAddress \<Rightarrow> Column \<Rightarrow> Column" where
  "pass1 LiveVariables ThisAddr NextAddr C =
     (if \<not> isActive C then C
      else let LV = LiveVariables ! unat (VarIdx C);
               In = liveAtAddress LV ThisAddr;
               Out = liveAtAddress LV NextAddr
           in \<lparr>VarIdx = (if \<not> In \<and> \<not> Out then NullVarIdx else VarIdx C),
               LiveIn = In, LiveOut = Out, MustDrawLabel = MustDrawLabel C\<rparr>)"

text \<open>Pass 2 of \<open>update\<close>, on one variable index.\<close>

definition pass2 ::
  "(Column list \<Rightarrow> nat \<Rightarrow> Column list) \<Rightarrow> LiveVariable list \<Rightarrow> SectionedAddress \<Rightarrow>
   SectionedAddress \<Rightarrow> u32 list \<Rightarrow> Column list \<Rightarrow> nat \<Rightarrow> Column list" where
  "pass2 G LiveVariables ThisAddr NextAddr CheckedVarIdxs ActiveCols V =
     (if word_of_nat V \<in> set CheckedVarIdxs then ActiveCols
      else let LV = LiveVariables ! V;
               In = liveAtAddress LV ThisAddr;
               Out = liveAtAddress LV NextAddr
           in if \<not> In \<and> \<not> Out then ActiveCols
              else let (ColIdx, Cols) = findFreeColumn G ActiveCols
                   in Cols[ColIdx := \<lparr>VarIdx = word_of_nat V, LiveIn = In, LiveOut = Out,
                                       MustDrawLabel = True\<rparr>])"

text \<open>
  \<open>update\<close>. The loop of pass 2 counts in \<open>unsigned\<close>: its bound is the size of
  \<open>LiveVariables\<close> cut to 32 bits.
\<close>

definition update ::
  "(Column list \<Rightarrow> nat \<Rightarrow> Column list) \<Rightarrow> LiveVariable list \<Rightarrow> Column list \<Rightarrow>
   SectionedAddress \<Rightarrow> SectionedAddress \<Rightarrow> bool \<Rightarrow> Column list" where
  "update G LiveVariables ActiveCols ThisAddr NextAddr IncludeDefinedVars =
     (let CheckedVarIdxs = map VarIdx (filter isActive ActiveCols);
          Cols = map (pass1 LiveVariables ThisAddr NextAddr) ActiveCols;
          End = unat (word_of_nat (length LiveVariables) :: u32)
      in if IncludeDefinedVars
         then foldl (pass2 G LiveVariables ThisAddr NextAddr CheckedVarIdxs) Cols [0 ..< End]
         else Cols)"

text \<open>A run of \<open>update\<close> calls, each with its two addresses and its flag.\<close>

definition updates ::
  "(Column list \<Rightarrow> nat \<Rightarrow> Column list) \<Rightarrow> LiveVariable list \<Rightarrow> Column list \<Rightarrow>
   (SectionedAddress \<times> SectionedAddress \<times> bool) list \<Rightarrow> Column list" where
  "updates G LiveVariables ActiveCols calls =
     foldl (\<lambda>Cols (ThisAddr, NextAddr, Inc). update G LiveVariables Cols ThisAddr NextAddr Inc)
       ActiveCols calls"

section \<open>Relocations\<close>

datatype file_format = ELF | COFF | MachO | Wasm | XCOFF

datatype arch_type =
  x86 | x86_64 | arm | ppc | hexagon | aarch64 | amdgcn | bpfel | bpfeb | UnknownArch

record DataRefImpl =
  d_a :: u32
  d_b :: u32

text \<open>
  The relocation type numbers of Mach-O that \<open>getHidden\<close> compares with are declared
  outside the sources at hand: they are parameters of the object.
\<close>

record MachORelocTypes =
  GENERIC_RELOC_PAIR :: u64
  X86_64_RELOC_UNSIGNED :: u64
  X86_64_RELOC_SUBTRACTOR :: u64

record ObjectFile =
  Format :: file_format
  Arch :: arch_type
  getRelocationType :: "DataRefImpl \<Rightarrow> u64"
  RelocTypes :: MachORelocTypes

record RelocationRef =
  Offset :: u64
  RawDataRefImpl :: DataRefImpl

definition getHidden :: "ObjectFile \<Rightarrow> RelocationRef \<Rightarrow> bool" where
  "getHidden Obj RelRef =
     (if Format Obj \<noteq> MachO then False
      else let Rel = RawDataRefImpl RelRef;
               Type = getRelocationType Obj Rel
           in if Arch Obj = x86 \<or> Arch Obj = arm \<or> Arch Obj = ppc
              then Type = GENERIC_RELOC_PAIR (RelocTypes Obj)
              else if Arch Obj = x86_64 \<and> Type = X86_64_RELOC_UNSIGNED (RelocTypes Obj)
                      \<and> d_a Rel > 0
                      \<and> getRelocationType Obj (Rel\<lparr>d_a := d_a Rel - 1\<rparr>)
                          = X86_64_RELOC_SUBTRACTOR (RelocTypes Obj)
              then True
              else False)"

section \<open>The disassembly driver\<close>

text \<open>
  The bounds of the range of symbol \<open>SI\<close>, relative to the section: the symbol's address
  up to the section end, the next symbol or \<open>StopAddress\<close>. \<open>None\<close> where the driver
  goes on to the next symbol.
\<close>

definition symbolRange ::
  "u64 \<Rightarrow> u64 \<Rightarrow> u64 \<Rightarrow> u64 \<Rightarrow> SectionSymbolsTy \<Rightarrow> nat \<Rightarrow> (u64 \<times> u64) option" where
  "symbolRange SectionAddr SectSize StartAddress StopAddress Symbols SI =
     (let Start = Addr (Symbols ! SI)
      in if Start < SectionAddr \<or> StopAddress \<le> Start then None
         else let End0 = min (SectionAddr + SectSize) StopAddress;
                  End = (if SI + 1 < length Symbols then min End0 (Addr (Symbols ! (SI + 1)))
                         else End0)
              in if Start \<ge> End \<or> End \<le> StartAddress then None
                 else Some (Start - SectionAddr, End - SectionAddr))"

text \<open>
  Where the instruction loop starts: behind the bytes that \<open>onSymbolStart\<close> consumed, and
  not before \<open>StartAddress\<close>.
\<close>

definition initialIndex :: "u64 \<Rightarrow> u64 \<Rightarrow> u64 \<Rightarrow> u64 \<Rightarrow> u64" where
  "initialIndex SectionAddr StartAddress Start Size =
     (let Index = Start + Size
      in if SectionAddr < StartAddress then max Index (StartAddress - SectionAddr) else Index)"

definition getMappingSymbolKind :: "(u64 \<times> char) list \<Rightarrow> u64 \<Rightarrow> char" where
  "getMappingSymbolKind MappingSymbols A =
     (let It = partition_point MappingSymbols (\<lambda>Val. fst Val \<le> A)
      in if It = 0 then CHR 0x00 else snd (MappingSymbols ! (It - 1)))"

text \<open>\<open>dumpARMELFData\<close>: the size of the datum it prints, a word, a short or a byte.\<close>

definition dumpARMELFData :: "ArrayRef \<Rightarrow> u64 \<Rightarrow> u64 \<Rightarrow> error + u64" where
  "dumpARMELFData Bytes Index End =
     (if Index + 4 \<le> End then
        (case slice Bytes Index 4 of Inl e \<Rightarrow> Inl e | Inr _ \<Rightarrow> Inr 4)
      else if Index + 2 \<le> End then
        (case slice Bytes Index 2 of Inl e \<Rightarrow> Inl e | Inr _ \<Rightarrow> Inr 2)
      else
        (case slice Bytes Index 1 of Inl e \<Rightarrow> Inl e | Inr _ \<Rightarrow> Inr 1))"

text \<open>
  What the decoder, an opaque capability, gives back: whether it produced an instruction,
  the size it reports, the text the instruction printer makes of the instruction, and
  what it wrote to the comment stream.
\<close>

record Decoded =
  Disassembled :: bool
  DecodedSize :: u64
  InstText :: string
  Comments :: string

text \<open>
  The printer of instruction lines, \<open>PIP\<close>: the base \<open>PrettyPrinter\<close> or one of its three
  subclasses, chosen from the architecture of the triple.
\<close>

datatype pretty_printer = DefaultPrinter | HexagonPrinter | AMDGCNPrinter | BPFPrinter

definition selectPrettyPrinter :: "arch_type \<Rightarrow> pretty_printer" where
  "selectPrettyPrinter A =
     (if A = hexagon then HexagonPrinter
      else if A = amdgcn then AMDGCNPrinter
      else if A = bpfel \<or> A = bpfeb then BPFPrinter
      else DefaultPrinter)"

text \<open>
  What stays fixed while a section is disassembled. \<open>getInstruction\<close> is asked with the flag
  that tells the secondary decoder (ARM against Thumb) from the primary one, the bytes from
  \<open>Index\<close> on, and the address. \<open>PIP\<close> is the printer the driver is called with.
\<close>

record DisasmCfg =
  Obj :: ObjectFile
  Bytes :: ArrayRef
  SectionAddr :: u64
  StartAddress :: u64
  DisassembleZeroes :: bool
  CheckARMELFData :: bool
  HasSecondary :: bool
  PrimaryIsThumb :: bool
  MappingSymbols :: "(u64 \<times> char) list"
  Rels :: "RelocationRef list"
  getInstruction :: "bool \<Rightarrow> ArrayRef \<Rightarrow> u64 \<Rightarrow> Decoded"
  PIP :: pretty_printer
  NoShowRawInsn :: bool

text \<open>
  What a printer writes for the instruction itself: the text of the instruction printer,
  the placeholder as it is written, the first four bytes as a \<open>.long\<close>, fewer bytes as a
  \<open>.byte\<close> list, or the lines of a Hexagon packet, each with its address, its text and the
  relocation printed behind it. Addresses, byte dumps and padding are left out.
\<close>

datatype inst_body =
  Mnemonic string
| Unknown string
| LongDirective "u8 list"
| ByteDirective "u8 list"
| Packet "(u64 \<times> string \<times> RelocationRef option) list"

text \<open>
  The lines the loop prints, with the byte positions they stand for: the \<open>...\<close> of a
  skipped run (its index and length), a datum, an instruction line (index, size, what the
  printer wrote, comments), a relocation.
\<close>

datatype output_line =
  Ellipsis u64 u64
| DataLine u64 u64
| InstLine u64 u64 inst_body string
| RelocLine RelocationRef

record LoopState =
  Index :: u64
  RelCur :: nat
  UseSecondary :: bool

text \<open>
  Reading the first \<open>n\<close> bytes a reference points to, and \<open>Bytes[i]\<close>, which asserts
  \<open>i < size()\<close>.
\<close>

definition readBytes :: "ArrayRef \<Rightarrow> nat \<Rightarrow> error + u8 list" where
  "readBytes B n = (if n \<le> length (ar_data B) then Inr (take n (ar_data B)) else Inl OutOfBounds)"

definition byteAt :: "ArrayRef \<Rightarrow> nat \<Rightarrow> error + u8" where
  "byteAt B i =
     (if i < unat (ar_size B) then
        (if i < length (ar_data B) then Inr (ar_data B ! i) else Inl OutOfBounds)
      else Inl AssertionFailed)"

text \<open>\<open>dumpBytes\<close> reads every byte of the reference, unless \<open>--no-show-raw-insn\<close> is given.\<close>

definition dumpBytes :: "bool \<Rightarrow> ArrayRef \<Rightarrow> error + unit" where
  "dumpBytes NoShow B =
     (if NoShow then Inr ()
      else case readBytes B (unat (ar_size B)) of Inl e \<Rightarrow> Inl e | Inr _ \<Rightarrow> Inr ())"

text \<open>\<open>PrettyPrinter::printInst\<close> and \<open>BPFPrettyPrinter::printInst\<close>.\<close>

definition printInstDefault :: "bool \<Rightarrow> Decoded \<Rightarrow> ArrayRef \<Rightarrow> error + inst_body" where
  "printInstDefault NoShow D B =
     (case dumpBytes NoShow B of
        Inl e \<Rightarrow> Inl e
      | Inr _ \<Rightarrow>
          Inr (if Disassembled D then Mnemonic (InstText D)
               else Unknown (CHR 0x09 # ''<unknown>'')))"

text \<open>
  \<open>AMDGCNPrettyPrinter::printInst\<close>: an encoding that is not recognised is written as data,
  a \<open>.long\<close> where four bytes are there and a \<open>.byte\<close> list otherwise; the bytes follow
  once more in a comment, in words or one by one.
\<close>

definition printInstAMDGCN :: "Decoded \<Rightarrow> ArrayRef \<Rightarrow> error + inst_body" where
  "printInstAMDGCN D B =
     (case (if Disassembled D then Inr (Mnemonic (InstText D))
            else if ar_size B \<ge> 4 then
              (case readBytes B 4 of Inl e \<Rightarrow> Inl e | Inr bs \<Rightarrow> Inr (LongDirective bs))
            else
              (case byteAt B 0 of
                 Inl e \<Rightarrow> Inl e
               | Inr _ \<Rightarrow>
                   (case readBytes B (unat (ar_size B)) of
                      Inl e \<Rightarrow> Inl e
                    | Inr bs \<Rightarrow> Inr (ByteDirective bs)))) of
        Inl e \<Rightarrow> Inl e
      | Inr body \<Rightarrow>
          (case readBytes B (if ar_size B \<ge> 4 then 4 * (unat (ar_size B) div 4)
                             else unat (ar_size B)) of
             Inl e \<Rightarrow> Inl e
           | Inr _ \<Rightarrow> Inr body))"

text \<open>
  \<open>HexagonPrettyPrinter::printLead\<close> reads \<open>Bytes[3]\<close> down to \<open>Bytes[0]\<close>. The relocation
  printed behind a packet line is the first one at the line's address; the cursor stays
  on it.
\<close>

definition printLead :: "ArrayRef \<Rightarrow> error + unit" where
  "printLead B = (case byteAt B 3 of Inl e \<Rightarrow> Inl e | Inr _ \<Rightarrow> Inr ())"

fun printReloc :: "u64 \<Rightarrow> RelocationRef list \<Rightarrow> RelocationRef option \<times> RelocationRef list" where
  "printReloc A [] = (None, [])"
| "printReloc A (R # Rs) =
     (if Offset R \<le> A then (if Offset R = A then (Some R, R # Rs) else printReloc A Rs)
      else (None, R # Rs))"

text \<open>
  \<open>StringRef::split\<close> and \<open>rsplit\<close> are the library's. The packet loop takes the lines of the
  text one after the other, \<open>split('\n')\<close> of what is left, until a line is empty: these
  are the pieces between the line feeds, in order.
\<close>

fun splitOn :: "char \<Rightarrow> string \<Rightarrow> string list" where
  "splitOn c [] = [[]]"
| "splitOn c (x # xs) =
     (if x = c then [] # splitOn c xs
      else (case splitOn c xs of [] \<Rightarrow> [[x]] | l # ls \<Rightarrow> (x # l) # ls))"

definition rsplitFirst :: "char \<Rightarrow> string \<Rightarrow> string" where
  "rsplitFirst c s =
     (if c \<in> set s then rev (drop (Suc (length (takeWhile (\<lambda>x. x \<noteq> c) (rev s)))) (rev s))
      else s)"

fun packetLines ::
  "string list \<Rightarrow> ArrayRef \<Rightarrow> u64 \<Rightarrow> RelocationRef list \<Rightarrow>
   error + (u64 \<times> string \<times> RelocationRef option) list" where
  "packetLines [] B A Cur = Inr []"
| "packetLines (l # ls) B A Cur =
     (if l = [] then Inr []
      else case printLead B of
             Inl e \<Rightarrow> Inl e
           | Inr _ \<Rightarrow>
               (let (R, Cur') = printReloc A Cur
                in case slice_from B 4 of
                     Inl e \<Rightarrow> Inl e
                   | Inr B' \<Rightarrow>
                       (case packetLines ls B' (A + 4) Cur' of
                          Inl e \<Rightarrow> Inl e
                        | Inr rest \<Rightarrow> Inr ((A, l, R) # rest))))"

text \<open>\<open>HexagonPrettyPrinter::printInst\<close>.\<close>

definition printInstHexagon ::
  "Decoded \<Rightarrow> ArrayRef \<Rightarrow> u64 \<Rightarrow> RelocationRef list \<Rightarrow> error + inst_body" where
  "printInstHexagon D B A Relocs =
     (if \<not> Disassembled D then
        (case printLead B of Inl e \<Rightarrow> Inl e | Inr _ \<Rightarrow> Inr (Unknown '' <unknown>''))
      else
        (case packetLines (splitOn (CHR 0x0A) (rsplitFirst (CHR 0x0A) (InstText D))) B A Relocs of
           Inl e \<Rightarrow> Inl e
         | Inr ls \<Rightarrow> Inr (Packet ls)))"

text \<open>\<open>PIP.printInst\<close>, on the bytes of the unit, its address and the section's relocations.\<close>

definition printInst ::
  "pretty_printer \<Rightarrow> bool \<Rightarrow> Decoded \<Rightarrow> ArrayRef \<Rightarrow> u64 \<Rightarrow> RelocationRef list \<Rightarrow>
   error + inst_body" where
  "printInst P NoShow D B A Relocs =
     (case P of
        DefaultPrinter \<Rightarrow> printInstDefault NoShow D B
      | BPFPrinter \<Rightarrow> printInstDefault NoShow D B
      | AMDGCNPrinter \<Rightarrow> printInstAMDGCN D B
      | HexagonPrinter \<Rightarrow> printInstHexagon D B A Relocs)"

text \<open>
  The relocation loop behind a unit, on the relocations from \<open>RelCur\<close> on: the lines printed
  and the number of relocations passed.
\<close>

fun printRelocations ::
  "ObjectFile \<Rightarrow> u64 \<Rightarrow> u64 \<Rightarrow> u64 \<Rightarrow> RelocationRef list \<Rightarrow> output_line list \<times> nat" where
  "printRelocations Ob SecAddr StartAddr Limit [] = ([], 0)"
| "printRelocations Ob SecAddr StartAddr Limit (R # Rs) =
     (if getHidden Ob R \<or> SecAddr + Offset R < StartAddr then
        (let (out, n) = printRelocations Ob SecAddr StartAddr Limit Rs in (out, n + 1))
      else if Offset R \<ge> Limit then ([], 0)
      else (let (out, n) = printRelocations Ob SecAddr StartAddr Limit Rs
            in (RelocLine R # out, n + 1)))"

definition finishUnit ::
  "DisasmCfg \<Rightarrow> output_line list \<Rightarrow> LoopState \<Rightarrow> u64 \<Rightarrow> output_line list \<times> LoopState" where
  "finishUnit cfg out st Size =
     (let (rl, n) =
            (if Arch (Obj cfg) \<noteq> hexagon
             then printRelocations (Obj cfg) (SectionAddr cfg) (StartAddress cfg)
                    (Index st + Size) (drop (RelCur st) (Rels cfg))
             else ([], 0))
      in (out @ rl, st\<lparr>Index := Index st + Size, RelCur := RelCur st + n\<rparr>))"

text \<open>The choice of decoder by the mapping symbol at \<open>Index\<close>.\<close>

definition selectDecoder :: "DisasmCfg \<Rightarrow> LoopState \<Rightarrow> LoopState" where
  "selectDecoder cfg st =
     (if CheckARMELFData cfg \<and> HasSecondary cfg then
        (let Kind = getMappingSymbolKind (MappingSymbols cfg) (Index st)
         in if Kind = CHR ''a'' then st\<lparr>UseSecondary := PrimaryIsThumb cfg\<rparr>
            else if Kind = CHR ''t'' then st\<lparr>UseSecondary := \<not> PrimaryIsThumb cfg\<rparr>
            else st)
      else st)"

text \<open>The zero bytes to skip at \<open>Index\<close>: none under \<open>--disassemble-zeroes\<close>.\<close>

definition skippable :: "DisasmCfg \<Rightarrow> u64 \<Rightarrow> LoopState \<Rightarrow> error + u64" where
  "skippable cfg End st =
     (if DisassembleZeroes cfg then Inr 0
      else case skipWindow (Bytes cfg) (Index st) End
                  (if RelCur st < length (Rels cfg) then Some (Offset (Rels cfg ! RelCur st))
                   else None) of
             Inl e \<Rightarrow> Inl e
           | Inr W \<Rightarrow> countSkippableZeroBytes W)"

definition decodeUnit :: "DisasmCfg \<Rightarrow> LoopState \<Rightarrow> error + output_line list \<times> LoopState" where
  "decodeUnit cfg st =
     (case slice_from (Bytes cfg) (Index st) of
        Inl e \<Rightarrow> Inl e
      | Inr Rest \<Rightarrow>
          (let D = getInstruction cfg (UseSecondary st) Rest (SectionAddr cfg + Index st);
               Size = (if DecodedSize D = 0 then 1 else DecodedSize D)
           in case slice (Bytes cfg) (Index st) Size of
                Inl e \<Rightarrow> Inl e
              | Inr B \<Rightarrow>
                  (case printInst (PIP cfg) (NoShowRawInsn cfg) D B (SectionAddr cfg + Index st)
                          (Rels cfg) of
                     Inl e \<Rightarrow> Inl e
                   | Inr body \<Rightarrow>
                       Inr (finishUnit cfg [InstLine (Index st) Size body (Comments D)]
                              st Size))))"

text \<open>
  One turn of \<open>while (Index < End)\<close>. The turn is followed for the index, the
  relocation cursor, the decoder chosen and the lines printed; the local label before an
  instruction, the live-variable columns and the target behind the instruction, which
  change none of these, are described on their own above.
\<close>

definition loopBody :: "DisasmCfg \<Rightarrow> u64 \<Rightarrow> LoopState \<Rightarrow> error + output_line list \<times> LoopState" where
  "loopBody cfg End st0 =
     (let st = selectDecoder cfg st0
      in if CheckARMELFData cfg
            \<and> getMappingSymbolKind (MappingSymbols cfg) (Index st) = CHR ''d''
         then (case dumpARMELFData (Bytes cfg) (Index st) End of
                 Inl e \<Rightarrow> Inl e
               | Inr Size \<Rightarrow> Inr (finishUnit cfg [DataLine (Index st) Size] st Size))
         else (case skippable cfg End st of
                 Inl e \<Rightarrow> Inl e
               | Inr N \<Rightarrow>
                   if N \<noteq> 0 then Inr ([Ellipsis (Index st) N], st\<lparr>Index := Index st + N\<rparr>)
                   else decodeUnit cfg st))"

text \<open>
  The loop, with a bound on its turns: \<open>None\<close> when the bound is used up before
  \<open>Index\<close> reaches \<open>End\<close>, a fault when a turn faults, else the lines and the last state.
\<close>

primrec instructionLoop ::
  "nat \<Rightarrow> DisasmCfg \<Rightarrow> u64 \<Rightarrow> LoopState \<Rightarrow> (error + output_line list \<times> LoopState) option" where
  "instructionLoop 0 cfg End st =
     (if Index st < End then None else Some (Inr ([], st)))"
| "instructionLoop (Suc fuel) cfg End st =
     (if Index st < End then
        (case loopBody cfg End st of
           Inl e \<Rightarrow> Some (Inl e)
         | Inr (out, st') \<Rightarrow>
             (case instructionLoop fuel cfg End st' of
                None \<Rightarrow> None
              | Some (Inl e) \<Rightarrow> Some (Inl e)
              | Some (Inr (out', st'')) \<Rightarrow> Some (Inr (out @ out', st''))))
      else Some (Inr ([], st)))"

section \<open>Notions the properties are stated with\<close>

text \<open>The bytes a reference claims, and the length of the run of zero bytes a list starts with.\<close>

definition visible :: "ArrayRef \<Rightarrow> u8 list" where
  "visible B = take (unat (ar_size B)) (ar_data B)"

definition zeroRun :: "u8 list \<Rightarrow> nat" where
  "zeroRun bs = length (takeWhile (\<lambda>b. b = 0) bs)"

text \<open>A relocation the relocation loop prints when it comes to it.\<close>

definition shown :: "ObjectFile \<Rightarrow> u64 \<Rightarrow> u64 \<Rightarrow> RelocationRef \<Rightarrow> bool" where
  "shown Ob SecAddr StartAddr R \<longleftrightarrow> \<not> getHidden Ob R \<and> \<not> SecAddr + Offset R < StartAddr"

subsection \<open>Example inputs\<close>

definition elfObject :: ObjectFile where
  "elfObject = \<lparr>Format = ELF, Arch = x86_64, getRelocationType = (\<lambda>_. 0),
     RelocTypes = \<lparr>GENERIC_RELOC_PAIR = 1, X86_64_RELOC_UNSIGNED = 0,
                    X86_64_RELOC_SUBTRACTOR = 5\<rparr>\<rparr>"

text \<open>A Mach-O object whose relocation \<open>d.a\<close> has the type at that place of a list.\<close>

definition machOObject :: "arch_type \<Rightarrow> u64 list \<Rightarrow> ObjectFile" where
  "machOObject A types = \<lparr>Format = MachO, Arch = A,
     getRelocationType = (\<lambda>Rel. types ! unat (d_a Rel)),
     RelocTypes = \<lparr>GENERIC_RELOC_PAIR = 1, X86_64_RELOC_UNSIGNED = 0,
                    X86_64_RELOC_SUBTRACTOR = 5\<rparr>\<rparr>"

definition relocAt :: "u64 \<Rightarrow> RelocationRef" where
  "relocAt off = \<lparr>Offset = off, RawDataRefImpl = \<lparr>d_a = 0, d_b = 0\<rparr>\<rparr>"

text \<open>A decoder that answers the same everywhere.\<close>

definition decodesAs :: "bool \<Rightarrow> u64 \<Rightarrow> bool \<Rightarrow> ArrayRef \<Rightarrow> u64 \<Rightarrow> Decoded" where
  "decodesAs ok sz =
     (\<lambda>_ _ _. \<lparr>Disassembled = ok, DecodedSize = sz, InstText = ''nop'', Comments = ''''\<rparr>)"

text \<open>
  A section of an ELF object at address 0, with its bytes, \<open>--start-address\<close>,
  \<open>--disassemble-zeroes\<close>, its relocations and a decoder, printed by the base printer.
\<close>

definition exampleCfg ::
  "u8 list \<Rightarrow> u64 \<Rightarrow> bool \<Rightarrow> RelocationRef list \<Rightarrow> (bool \<Rightarrow> ArrayRef \<Rightarrow> u64 \<Rightarrow> Decoded) \<Rightarrow>
   DisasmCfg" where
  "exampleCfg bs StartAddr Zeroes rels decoder =
     \<lparr>Obj = elfObject, Bytes = arrayRefFromBytes bs, SectionAddr = 0, StartAddress = StartAddr,
      DisassembleZeroes = Zeroes, CheckARMELFData = False, HasSecondary = False,
      PrimaryIsThumb = False, MappingSymbols = [], Rels = rels, getInstruction = decoder,
      PIP = DefaultPrinter, NoShowRawInsn = False\<rparr>"

text \<open>
  Sixteen bytes of code, sixteen zero bytes, four bytes of code; relocations at offsets 0
  and 20; disassembly asked from address 16 on.
\<close>

definition staleRelocationCfg :: DisasmCfg where
  "staleRelocationCfg =
     exampleCfg (replicate 16 0x90 @ replicate 16 0 @ replicate 4 0x90) 16 False
       [relocAt 0, relocAt 20] (decodesAs True 4)"



subsection \<open>Notions for the instruction loop\<close>

text \<open>
  The decoder's contract as far as the loop relies on it: the size it reports is that of
  bytes it was given, so it stays below \<open>2 ^ 63\<close>.
\<close>

definition decoderSizeBound :: "DisasmCfg \<Rightarrow> bool" where
  "decoderSizeBound cfg \<longleftrightarrow>
     (\<forall>sec Rest A. DecodedSize (getInstruction cfg sec Rest A) < 2 ^ 63)"

text \<open>The number of bytes a printed line stands for.\<close>

fun unitSize :: "output_line \<Rightarrow> u64" where
  "unitSize (Ellipsis I N) = N"
| "unitSize (DataLine I S) = S"
| "unitSize (InstLine I S T C) = S"
| "unitSize (RelocLine R) = 0"








subsection \<open>Notions for the resolution of a target\<close>

text \<open>The last symbol of a table whose address is not above the target.\<close>

definition lastAtOrBelow :: "u64 \<Rightarrow> SectionSymbolsTy \<Rightarrow> SymbolInfoTy option" where
  "lastAtOrBelow Target Table =
     (case filter (\<lambda>Sym. Addr Sym \<le> Target) Table of
        [] \<Rightarrow> None
      | Syms \<Rightarrow> Some (last Syms))"

text \<open>The answer of the first table that has one.\<close>

fun firstMatch :: "u64 \<Rightarrow> SectionSymbolsTy list \<Rightarrow> SymbolInfoTy option" where
  "firstMatch Target [] = None"
| "firstMatch Target (Table # Tables) =
     (case lastAtOrBelow Target Table of
        Some Sym \<Rightarrow> Some Sym
      | None \<Rightarrow> firstMatch Target Tables)"

text \<open>
  The sections whose base address is the largest one not above the target, the later of
  \<open>SectionAddresses\<close> first.
\<close>

definition sectionsAtLargestBase :: "(u64 \<times> nat) list \<Rightarrow> u64 \<Rightarrow> nat list" where
  "sectionsAtLargestBase SectionAddresses Target =
     (case filter (\<lambda>Sec. fst Sec \<le> Target) SectionAddresses of
        [] \<Rightarrow> []
      | Secs \<Rightarrow>
          rev (map snd (filter (\<lambda>Sec. fst Sec = Max (fst ` set Secs)) SectionAddresses)))"

text \<open>Four sections, two of them at address 0x10, and the symbols of section 2.\<close>

definition exampleSections :: "(u64 \<times> nat) list" where
  "exampleSections = [(0, 1), (0x10, 2), (0x10, 3), (0x20, 4)]"

definition exampleSymbols :: "nat \<Rightarrow> SectionSymbolsTy" where
  "exampleSymbols i =
     (if i = 2 then [\<lparr>Addr = 0x10, Name = ''f'', Kind = ElfType STT_FUNC\<rparr>,
                     \<lparr>Addr = 0x18, Name = ''g'', Kind = ElfType STT_FUNC\<rparr>]
      else [])"

text \<open>
  Two variables of section 1: \<open>x\<close> is live from 0 to 20, \<open>y\<close> from 8 to 12. Instructions
  of four bytes, given by the addresses before and behind them.
\<close>

definition exampleVariables :: "LiveVariable list" where
  "exampleVariables =
     [\<lparr>LocRange = Some \<lparr>LowPC = 0, HighPC = 20, RangeSectionIndex = 1\<rparr>, VarName = ''x''\<rparr>,
      \<lparr>LocRange = Some \<lparr>LowPC = 8, HighPC = 12, RangeSectionIndex = 1\<rparr>, VarName = ''y''\<rparr>]"

definition instructionAt :: "u64 \<Rightarrow> SectionedAddress \<times> SectionedAddress \<times> bool" where
  "instructionAt A =
     (\<lparr>Address = A, SectionIndex = 1\<rparr>, \<lparr>Address = A + 4, SectionIndex = 1\<rparr>, True)"

definition columnOf :: "u32 \<Rightarrow> Column" where
  "columnOf V = \<lparr>VarIdx = V, LiveIn = True, LiveOut = True, MustDrawLabel = False\<rparr>"

subsection \<open>Notions for the live-variable columns\<close>

text \<open>
  The contract of \<open>IndexedMap::grow\<close> that \<open>findFreeColumn\<close> relies on: \<open>grow n\<close> leaves
  the columns there are as they are and adds inactive ones behind them (copies of the
  \<open>Column()\<close> the map was made with), so that the array holds \<open>n\<close> columns at least.
\<close>

definition growsTo :: "(Column list \<Rightarrow> nat \<Rightarrow> Column list) \<Rightarrow> bool" where
  "growsTo G \<longleftrightarrow>
     (\<forall>Cols n. \<exists>k. G Cols n = Cols @ replicate k newColumn \<and> n \<le> length Cols + k)"

text \<open>
  The lowest index at which no column is occupied: that of the first free column, the
  length of the array where every column is occupied.
\<close>

definition lowestFree :: "Column list \<Rightarrow> nat" where
  "lowestFree Cols = length (takeWhile isActive Cols)"

text \<open>
  The columns at the moment pass 2 of an \<open>update\<close> call with \<open>IncludeDefinedVars\<close> comes to
  variable \<open>V\<close>: pass 1 is done, and pass 2 has been through the variables below \<open>V\<close>.
\<close>

definition columnsWhenReached ::
  "(Column list \<Rightarrow> nat \<Rightarrow> Column list) \<Rightarrow> LiveVariable list \<Rightarrow> Column list \<Rightarrow>
   SectionedAddress \<Rightarrow> SectionedAddress \<Rightarrow> nat \<Rightarrow> Column list" where
  "columnsWhenReached G LiveVariables ActiveCols ThisAddr NextAddr V =
     foldl (pass2 G LiveVariables ThisAddr NextAddr (map VarIdx (filter isActive ActiveCols)))
       (map (pass1 LiveVariables ThisAddr NextAddr) ActiveCols) [0 ..< V]"

section \<open>Properties of zero skipping\<close>

lemma and_not_mask_push_drop: "(w :: u64) AND NOT (mask k) = push_bit k (drop_bit k w)"
  by (rule bit_eqI) (auto simp: bit_simps)

lemma unat_and_not_3: "unat ((w :: u64) AND NOT 3) = unat w - unat w mod 4"
proof -
  have m: "(3 :: u64) = mask 2" by (simp add: mask_eq_exp_minus_1)
  have "unat (push_bit 2 (drop_bit 2 w)) = take_bit 64 (push_bit 2 (drop_bit 2 (unat w)))"
    by (simp add: unsigned_push_bit_eq unat_drop_bit_eq)
  also have "\<dots> = take_bit 64 (4 * (unat w div 4))"
    by (simp add: push_bit_eq_mult drop_bit_eq_div mult.commute)
  finally have "unat (push_bit 2 (drop_bit 2 w)) = take_bit 64 (4 * (unat w div 4))" .
  moreover have "4 * (unat w div 4) \<le> unat w" by simp
  moreover have "unat w < 2 ^ 64" using unsigned_less [of w] by simp
  ultimately have "unat (push_bit 2 (drop_bit 2 w)) = 4 * (unat w div 4)"
    by (simp add: take_bit_nat_eq_self)
  then show ?thesis
    unfolding m by (simp add: and_not_mask_push_drop minus_mod_eq_mult_div)
qed

lemma unat_of_nat_u64: "n < 2 ^ 64 \<Longrightarrow> unat (word_of_nat n :: u64) = n"
  by (simp add: unat_of_nat)

lemma zeroRun_le: "zeroRun bs \<le> length bs"
  by (simp add: zeroRun_def length_takeWhile_le)

lemma countLeadingZeroes_in_bounds:
  "N \<le> unat (ar_size B) \<Longrightarrow> unat (ar_size B) \<le> length (ar_data B) \<Longrightarrow>
   countLeadingZeroes B N = Inr (N + zeroRun (drop N (visible B)))"
proof (induction B N rule: countLeadingZeroes.induct)
  case (1 Buf N)
  show ?case
  proof (cases "N < unat (ar_size Buf)")
    case True
    then have lt: "N < length (ar_data Buf)" "N < length (visible Buf)"
      using "1.prems" by (simp_all add: visible_def)
    have nth: "visible Buf ! N = ar_data Buf ! N"
      using True by (simp add: visible_def)
    have d: "drop N (visible Buf) = ar_data Buf ! N # drop (Suc N) (visible Buf)"
      using lt nth by (metis Cons_nth_drop_Suc)
    show ?thesis
    proof (cases "ar_data Buf ! N = 0")
      case z: True
      have "countLeadingZeroes Buf N = countLeadingZeroes Buf (N + 1)"
        using True z lt by (subst countLeadingZeroes.simps) simp
      also have "\<dots> = Inr (N + 1 + zeroRun (drop (N + 1) (visible Buf)))"
        using "1.IH" True z lt "1.prems" by simp
      finally show ?thesis using d z by (simp add: zeroRun_def)
    next
      case False
      then show ?thesis using True d lt
        by (subst countLeadingZeroes.simps) (simp add: zeroRun_def)
    qed
  next
    case False
    then have "N = unat (ar_size Buf)" using "1.prems" by simp
    then show ?thesis
      by (subst countLeadingZeroes.simps) (simp add: visible_def zeroRun_def)
  qed
qed

text \<open>
  On a reference that stays within its memory: nothing below eight leading zero bytes, else
  the run rounded down to a multiple of four.
\<close>

lemma countSkippableZeroBytes_in_bounds:
  assumes "unat (ar_size B) \<le> length (ar_data B)"
  shows "countSkippableZeroBytes B =
           Inr (if zeroRun (visible B) < 8 then 0
                else word_of_nat (zeroRun (visible B) - zeroRun (visible B) mod 4))"
proof -
  let ?n = "zeroRun (visible B)"
  have c: "countLeadingZeroes B 0 = Inr ?n"
    using countLeadingZeroes_in_bounds [of 0 B] assms by simp
  have "?n \<le> unat (ar_size B)"
    using zeroRun_le [of "visible B"] by (simp add: visible_def)
  then have "?n < 2 ^ 64"
    using unsigned_less [of "ar_size B", where 'a = nat] by simp
  then have u: "unat (word_of_nat ?n :: u64) = ?n"
    by (simp add: unat_of_nat)
  have "unat ((word_of_nat ?n :: u64) AND NOT 3) = ?n - ?n mod 4"
    by (simp only: unat_and_not_3 u)
  moreover have "?n - ?n mod 4 < 2 ^ 64"
    using \<open>?n < 2 ^ 64\<close> by (rule less_imp_diff_less)
  then have "unat (word_of_nat (?n - ?n mod 4) :: u64) = ?n - ?n mod 4"
    by (rule unat_of_nat_u64)
  ultimately have "(word_of_nat ?n :: u64) AND NOT 3 = word_of_nat (?n - ?n mod 4)"
    by (simp only: word_unat_eq_iff)
  then show ?thesis
    by (simp add: countSkippableZeroBytes_def c)
qed

lemma visible_arrayRefFromBytes:
  "length bs < 2 ^ 64 \<Longrightarrow> visible (arrayRefFromBytes bs) = bs"
  by (simp add: visible_def arrayRefFromBytes_def unat_of_nat)

lemma countSkippableZeroBytes_bytes:
  assumes "length bs < 2 ^ 64"
  shows "countSkippableZeroBytes (arrayRefFromBytes bs) =
           Inr (if zeroRun bs < 8 then 0 else word_of_nat (zeroRun bs - zeroRun bs mod 4))"
proof -
  have "unat (ar_size (arrayRefFromBytes bs)) \<le> length (ar_data (arrayRefFromBytes bs))"
    using assms by (simp add: arrayRefFromBytes_def unat_of_nat)
  from countSkippableZeroBytes_in_bounds [OF this] show ?thesis
    using assms by (simp add: visible_arrayRefFromBytes)
qed

text \<open>
  C1, as stated, fails: twenty zero bytes are skipped whole, since 20 is a multiple of
  four; the function does not return 16.
\<close>

theorem skip_twenty_zeroes_counterexample:
  "countSkippableZeroBytes (arrayRefFromBytes (replicate 20 0)) \<noteq> Inr 16"
  by (simp add: countSkippableZeroBytes_bytes zeroRun_def)

text \<open>
  C1, amended: \<open>countSkippableZeroBytes\<close> returns 0 for every buffer with fewer than eight
  leading zero bytes; for a buffer of twenty zero bytes it returns 20; and the window the
  driver cuts from that buffer when a relocation is pending at offset 10 has ten bytes,
  for which it returns 8.
\<close>

theorem skip_examples:
  "(\<forall>bs. length bs < 2 ^ 64 \<and> zeroRun bs < 8 \<longrightarrow>
         countSkippableZeroBytes (arrayRefFromBytes bs) = Inr 0)
   \<and> countSkippableZeroBytes (arrayRefFromBytes (replicate 20 0)) = Inr 20
   \<and> (\<exists>W. skipWindow (arrayRefFromBytes (replicate 20 0)) 0 20 (Some 10) = Inr W
          \<and> ar_size W = 10 \<and> countSkippableZeroBytes W = Inr 8)"
proof (intro conjI allI impI)
  fix bs :: "u8 list"
  assume "length bs < 2 ^ 64 \<and> zeroRun bs < 8"
  then show "countSkippableZeroBytes (arrayRefFromBytes bs) = Inr 0"
    by (simp add: countSkippableZeroBytes_bytes)
next
  show "countSkippableZeroBytes (arrayRefFromBytes (replicate 20 0)) = Inr 20"
    by (simp add: countSkippableZeroBytes_bytes zeroRun_def)
next
  let ?W = "\<lparr>ar_data = replicate 20 (0 :: u8), ar_size = 10\<rparr>"
  have w: "skipWindow (arrayRefFromBytes (replicate 20 0)) 0 20 (Some 10) = Inr ?W"
    by (simp add: skipWindow_def slice_def arrayRefFromBytes_def)
  have "countSkippableZeroBytes ?W = Inr 8"
    by (subst countSkippableZeroBytes_in_bounds) (simp_all add: visible_def zeroRun_def)
  with w show "\<exists>W. skipWindow (arrayRefFromBytes (replicate 20 0)) 0 20 (Some 10) = Inr W
          \<and> ar_size W = 10 \<and> countSkippableZeroBytes W = Inr 8"
    by simp
qed

theorem skip_examples_witness:
  "length [0, 0, 0, 1 :: u8] < 2 ^ 64 \<and> zeroRun [0, 0, 0, 1] < 8
   \<and> countSkippableZeroBytes (arrayRefFromBytes [0, 0, 0, 1]) = Inr 0"
  using skip_examples by (simp add: zeroRun_def)

section \<open>Properties of the symbol tables\<close>

lemma set_stable_insert: "set (stable_insert lt x ys) = insert x (set ys)"
  by (induction ys) auto

lemma sorted_stable_insert:
  "sorted (map Addr ys) \<Longrightarrow> sorted (map Addr (stable_insert SymbolInfoTy_less x ys))"
  by (induction ys) (auto simp: set_stable_insert SymbolInfoTy_less_def)

text \<open>A symbol goes behind the symbols of its own address that are already there.\<close>

lemma filter_stable_insert:
  "sorted (map Addr ys) \<Longrightarrow>
   filter (\<lambda>s. Addr s = a) (stable_insert SymbolInfoTy_less x ys) =
   filter (\<lambda>s. Addr s = a) ys @ (if Addr x = a then [x] else [])"
proof (induction ys)
  case Nil
  then show ?case by simp
next
  case (Cons y ys)
  show ?case
  proof (cases "Addr x < Addr y")
    case True
    then have "\<forall>z \<in> set (y # ys). Addr x < Addr z"
      using Cons.prems by auto
    then have "Addr x = a \<Longrightarrow> filter (\<lambda>s. Addr s = a) (y # ys) = []"
      by (auto simp: filter_empty_conv)
    then show ?thesis using True by (auto simp: SymbolInfoTy_less_def)
  next
    case False
    then show ?thesis using Cons by (simp add: SymbolInfoTy_less_def)
  qed
qed

lemma foldl_stable_insert:
  "sorted (map Addr acc) \<Longrightarrow>
   sorted (map Addr (foldl (\<lambda>acc x. stable_insert SymbolInfoTy_less x acc) acc xs))
   \<and> filter (\<lambda>s. Addr s = a) (foldl (\<lambda>acc x. stable_insert SymbolInfoTy_less x acc) acc xs)
       = filter (\<lambda>s. Addr s = a) acc @ filter (\<lambda>s. Addr s = a) xs"
proof (induction xs arbitrary: acc)
  case Nil
  then show ?case by simp
next
  case (Cons x xs)
  from Cons.IH [OF sorted_stable_insert [OF Cons.prems, of x]]
  show ?case
    by (simp add: filter_stable_insert [OF Cons.prems])
qed

text \<open>
  C2: a sorted symbol table is ordered by address, ascending; the symbols of one address
  stand in it in the order of their discovery, whatever their names; and the table
  discovered as (0x10, b), (0x10, a), (0x20, c) is sorted as it stands.
\<close>

theorem symbols_sorted_stable:
  "sorted (map Addr (sortSymbols Symbols))
   \<and> (\<forall>a. filter (\<lambda>s. Addr s = a) (sortSymbols Symbols) = filter (\<lambda>s. Addr s = a) Symbols)
   \<and> sortSymbols
        [\<lparr>Addr = 0x10, Name = ''b'', Kind = K\<rparr>, \<lparr>Addr = 0x10, Name = ''a'', Kind = K\<rparr>,
         \<lparr>Addr = 0x20, Name = ''c'', Kind = K\<rparr>]
      = [\<lparr>Addr = 0x10, Name = ''b'', Kind = K\<rparr>, \<lparr>Addr = 0x10, Name = ''a'', Kind = K\<rparr>,
         \<lparr>Addr = 0x20, Name = ''c'', Kind = K\<rparr>]"
  using foldl_stable_insert [where acc = "[]" and xs = Symbols]
  by (simp add: sortSymbols_def stable_sort_def SymbolInfoTy_less_def)

text \<open>
  C3, as stated, fails: the dummy symbol carries the name of the section, not the empty
  string.
\<close>

theorem dummy_symbol_name_counterexample:
  "Name (hd (insertDummySymbol False False 0x1000 ''.text'' True [])) \<noteq> ''''"
  by (simp add: insertDummySymbol_def createDummySymbolInfo_def)

text \<open>
  C3, amended: if the symbol list of a section is empty, or its first symbol is neither at
  the section's base address nor at address 0, a dummy symbol is put in front of the list:
  at the base address, named as the section, function-typed for a text section and
  object-typed otherwise (on XCOFF with symbol descriptions, with an empty description).
  If the first symbol is at the base address and the base address is 0, the list is
  unchanged.
\<close>

theorem dummy_symbol_inserted:
  "((Symbols = [] \<or> (Addr (hd Symbols) \<noteq> SecAddr \<and> Addr (hd Symbols) \<noteq> 0)) \<longrightarrow>
      (\<exists>Dummy. insertDummySymbol isXCOFF SymbolDescription SecAddr SecName isText Symbols
                 = Dummy # Symbols
         \<and> Addr Dummy = SecAddr \<and> Name Dummy = SecName
         \<and> Kind Dummy = (if isXCOFF \<and> SymbolDescription then XCOFFSymInfo None None False
                          else ElfType (if isText then STT_FUNC else STT_OBJECT))))
   \<and> (Symbols \<noteq> [] \<and> Addr (hd Symbols) = SecAddr \<and> SecAddr = 0 \<longrightarrow>
        insertDummySymbol isXCOFF SymbolDescription SecAddr SecName isText Symbols
          = Symbols)"
  by (cases Symbols) (auto simp: insertDummySymbol_def createDummySymbolInfo_def)

theorem dummy_symbol_inserted_witness:
  "(([] :: SectionSymbolsTy) = [] \<or> (Addr (hd []) \<noteq> 0x1000 \<and> Addr (hd []) \<noteq> 0))
   \<and> insertDummySymbol False False 0x1000 ''.text'' True []
       = [\<lparr>Addr = 0x1000, Name = ''.text'', Kind = ElfType STT_FUNC\<rparr>]
   \<and> [\<lparr>Addr = 0, Name = ''main'', Kind = ElfType STT_FUNC\<rparr>] \<noteq> []
   \<and> Addr (hd [\<lparr>Addr = 0, Name = ''main'', Kind = ElfType STT_FUNC\<rparr>]) = 0
   \<and> insertDummySymbol False False 0 ''.text'' True
        [\<lparr>Addr = 0, Name = ''main'', Kind = ElfType STT_FUNC\<rparr>]
       = [\<lparr>Addr = 0, Name = ''main'', Kind = ElfType STT_FUNC\<rparr>]"
  using dummy_symbol_inserted [of "[]" "0x1000" False False "''.text''" True]
    dummy_symbol_inserted [of "[\<lparr>Addr = 0, Name = ''main'', Kind = ElfType STT_FUNC\<rparr>]" 0
       False False "''.text''" True]
  by auto

section \<open>Properties of the printed target\<close>

text \<open>
  C5, as stated, fails: the displacement is printed inside the angle brackets, behind the
  name, not behind the closing bracket.
\<close>

theorem target_offset_counterexample:
  "printTarget False id Map.empty 0x14
     (Some \<lparr>Addr = 0x10, Name = ''name'', Kind = ElfType STT_FUNC\<rparr>) \<noteq> '' <name>+0x4''"
  by (simp add: printTarget_def)

text \<open>
  C5, amended: when the target is resolved to a symbol, the driver prints the name in angle
  brackets when the target is the symbol's address; the name, \<open>+0x\<close> and the displacement
  in hexadecimal, all inside the angle brackets, when the displacement is positive and no
  local label exists at the target; the local label in angle brackets when the
  displacement is positive and a label exists at the target. With no symbol it prints the
  local label in angle brackets if there is one, and nothing otherwise.
\<close>

theorem target_display:
  "(TargetSym = Some Sym \<and> TargetName = (if Demangle then demangle (Name Sym) else Name Sym) \<longrightarrow>
      (Target = Addr Sym \<longrightarrow>
         printTarget Demangle demangle AllLabels Target TargetSym = '' <'' @ TargetName @ ''>'')
      \<and> (Target \<noteq> Addr Sym \<and> AllLabels Target = None \<longrightarrow>
         printTarget Demangle demangle AllLabels Target TargetSym
           = '' <'' @ TargetName @ ''+0x'' @ utohexstr (Target - Addr Sym) @ ''>'')
      \<and> (\<forall>L. Target \<noteq> Addr Sym \<and> AllLabels Target = Some L \<longrightarrow>
         printTarget Demangle demangle AllLabels Target TargetSym = '' <'' @ L @ ''>''))
   \<and> (TargetSym = None \<longrightarrow>
      (\<forall>L. AllLabels Target = Some L \<longrightarrow>
         printTarget Demangle demangle AllLabels Target TargetSym = '' <'' @ L @ ''>'')
      \<and> (AllLabels Target = None \<longrightarrow>
         printTarget Demangle demangle AllLabels Target TargetSym = ''''))"
  by (auto simp: printTarget_def)

theorem target_display_witness:
  "printTarget False id Map.empty 0x10 (Some \<lparr>Addr = 0x10, Name = ''name'', Kind = ElfType STT_FUNC\<rparr>)
     = '' <name>''
   \<and> (0x14 :: u64) \<noteq> 0x10 \<and> (Map.empty :: u64 \<rightharpoonup> string) 0x14 = None
   \<and> printTarget False id Map.empty 0x14 (Some \<lparr>Addr = 0x10, Name = ''name'', Kind = ElfType STT_FUNC\<rparr>)
     = '' <name+0x4>''
   \<and> [(0x14 :: u64) \<mapsto> ''L0''] 0x14 = Some ''L0''
   \<and> printTarget False id [0x14 \<mapsto> ''L0''] 0x14 (Some \<lparr>Addr = 0x10, Name = ''name'', Kind = ElfType STT_FUNC\<rparr>)
     = '' <L0>''
   \<and> printTarget False id [0x14 \<mapsto> ''L0''] 0x14 None = '' <L0>''
   \<and> printTarget False id Map.empty 0x14 None = ''''"
  using target_display [of "Some \<lparr>Addr = 0x10, Name = ''name'', Kind = ElfType STT_FUNC\<rparr>"
      "\<lparr>Addr = 0x10, Name = ''name'', Kind = ElfType STT_FUNC\<rparr>" "''name''" False id "0x10" Map.empty]
    target_display [of "Some \<lparr>Addr = 0x10, Name = ''name'', Kind = ElfType STT_FUNC\<rparr>"
      "\<lparr>Addr = 0x10, Name = ''name'', Kind = ElfType STT_FUNC\<rparr>" "''name''" False id "0x14" Map.empty]
    target_display [of "Some \<lparr>Addr = 0x10, Name = ''name'', Kind = ElfType STT_FUNC\<rparr>"
      "\<lparr>Addr = 0x10, Name = ''name'', Kind = ElfType STT_FUNC\<rparr>" "''name''" False id "0x14" "[0x14 \<mapsto> ''L0'']"]
    target_display [of None undefined "''''" False id "0x14" "[0x14 \<mapsto> ''L0'']"]
    target_display [of None undefined "''''" False id "0x14" Map.empty]
  by (simp add: utohexstr_def utohexstr_nat.simps hexDigit_def)

section \<open>Properties of the relocation loop\<close>

text \<open>
  On relocations in offset order the loop prints those it shows whose offset is below the
  limit, in their order.
\<close>

lemma printRelocations_sorted:
  "sorted (map Offset Rs) \<Longrightarrow>
   fst (printRelocations Ob SecAddr StartAddr Limit Rs)
     = map RelocLine (filter (\<lambda>R. shown Ob SecAddr StartAddr R \<and> Offset R < Limit) Rs)"
proof (induction Rs)
  case Nil
  then show ?case by simp
next
  case (Cons R Rs)
  then have IH: "fst (printRelocations Ob SecAddr StartAddr Limit Rs)
     = map RelocLine (filter (\<lambda>R. shown Ob SecAddr StartAddr R \<and> Offset R < Limit) Rs)"
    by simp
  show ?case
  proof (cases "shown Ob SecAddr StartAddr R")
    case False
    then show ?thesis using IH by (auto simp: shown_def split: prod.splits)
  next
    case True
    show ?thesis
    proof (cases "Offset R < Limit")
      case lt: True
      then show ?thesis using True IH by (auto simp: shown_def split: prod.splits)
    next
      case ge: False
      have "\<forall>R' \<in> set Rs. \<not> Offset R' < Limit"
        using Cons.prems ge by auto
      then have "filter (\<lambda>R. shown Ob SecAddr StartAddr R \<and> Offset R < Limit) Rs = []"
        by (auto simp: filter_empty_conv)
      then show ?thesis using True ge by (auto simp: shown_def)
    qed
  qed
qed

text \<open>
  C10, as stated, fails: a pending relocation below \<open>--start-address\<close> is passed
  over without output, although it is not hidden and its offset precedes the end of the
  unit.
\<close>

theorem relocations_start_address_counterexample:
  "fst (printRelocations elfObject 0 4 8 [relocAt 0, relocAt 4])
     \<noteq> map RelocLine
          (filter (\<lambda>R. \<not> getHidden elfObject R \<and> Offset R < 8) [relocAt 0, relocAt 4])"
  by (simp add: getHidden_def elfObject_def relocAt_def)

text \<open>
  C10, amended: behind each unit the driver prints, in offset order, exactly the pending
  relocations whose offset precedes \<open>Index + Size\<close>, except those that are hidden or lie
  below the start address, which are passed over without output; for a Hexagon object it
  prints none. A relocation is hidden exactly when the object is Mach-O and the relocation
  is a PAIR on x86, ARM or PowerPC, or an UNSIGNED on x86-64 whose raw reference has a
  predecessor that is a SUBTRACTOR.
\<close>

theorem relocations_printed:
  "(sorted (map Offset (drop (RelCur st) (Rels cfg))) \<longrightarrow>
      fst (finishUnit cfg out st Size)
        = out @ (if Arch (Obj cfg) = hexagon then []
                 else map RelocLine
                        (filter (\<lambda>R. shown (Obj cfg) (SectionAddr cfg) (StartAddress cfg) R
                                      \<and> Offset R < Index st + Size)
                           (drop (RelCur st) (Rels cfg)))))
   \<and> (getHidden Ob R \<longleftrightarrow>
        Format Ob = MachO
        \<and> ((Arch Ob = x86 \<or> Arch Ob = arm \<or> Arch Ob = ppc)
              \<and> getRelocationType Ob (RawDataRefImpl R) = GENERIC_RELOC_PAIR (RelocTypes Ob)
            \<or> Arch Ob = x86_64
              \<and> getRelocationType Ob (RawDataRefImpl R) = X86_64_RELOC_UNSIGNED (RelocTypes Ob)
              \<and> d_a (RawDataRefImpl R) > 0
              \<and> getRelocationType Ob ((RawDataRefImpl R)\<lparr>d_a := d_a (RawDataRefImpl R) - 1\<rparr>)
                  = X86_64_RELOC_SUBTRACTOR (RelocTypes Ob)))"
proof (intro conjI impI)
  assume s: "sorted (map Offset (drop (RelCur st) (Rels cfg)))"
  show "fst (finishUnit cfg out st Size)
        = out @ (if Arch (Obj cfg) = hexagon then []
                 else map RelocLine
                        (filter (\<lambda>R. shown (Obj cfg) (SectionAddr cfg) (StartAddress cfg) R
                                      \<and> Offset R < Index st + Size)
                           (drop (RelCur st) (Rels cfg))))"
    using printRelocations_sorted [OF s, of "Obj cfg" "SectionAddr cfg" "StartAddress cfg"
        "Index st + Size"]
    by (auto simp: finishUnit_def split: prod.splits)
next
  show "getHidden Ob R \<longleftrightarrow>
        Format Ob = MachO
        \<and> ((Arch Ob = x86 \<or> Arch Ob = arm \<or> Arch Ob = ppc)
              \<and> getRelocationType Ob (RawDataRefImpl R) = GENERIC_RELOC_PAIR (RelocTypes Ob)
            \<or> Arch Ob = x86_64
              \<and> getRelocationType Ob (RawDataRefImpl R) = X86_64_RELOC_UNSIGNED (RelocTypes Ob)
              \<and> d_a (RawDataRefImpl R) > 0
              \<and> getRelocationType Ob ((RawDataRefImpl R)\<lparr>d_a := d_a (RawDataRefImpl R) - 1\<rparr>)
                  = X86_64_RELOC_SUBTRACTOR (RelocTypes Ob))"
    by (auto simp: getHidden_def Let_def)
qed

lemmas example_simps = exampleCfg_def elfObject_def machOObject_def relocAt_def decodesAs_def
  arrayRefFromBytes_def

theorem relocations_printed_witness:
  "sorted (map Offset (drop 0 [relocAt 0, relocAt 4, relocAt 6, relocAt 12]))
   \<and> fst (finishUnit
            (exampleCfg (replicate 16 0x90) 4 False [relocAt 0, relocAt 4, relocAt 6, relocAt 12]
               (decodesAs True 4))
            [InstLine 4 4 (Mnemonic ''nop'') ''''] \<lparr>Index = 4, RelCur = 0, UseSecondary = False\<rparr> 4)
       = [InstLine 4 4 (Mnemonic ''nop'') '''', RelocLine (relocAt 4), RelocLine (relocAt 6)]
   \<and> getHidden (machOObject x86 [0, 1]) \<lparr>Offset = 4, RawDataRefImpl = \<lparr>d_a = 1, d_b = 0\<rparr>\<rparr>
   \<and> getHidden (machOObject x86_64 [5, 0]) \<lparr>Offset = 4, RawDataRefImpl = \<lparr>d_a = 1, d_b = 0\<rparr>\<rparr>
   \<and> \<not> getHidden (machOObject x86_64 [0, 0]) \<lparr>Offset = 4, RawDataRefImpl = \<lparr>d_a = 1, d_b = 0\<rparr>\<rparr>
   \<and> \<not> getHidden elfObject \<lparr>Offset = 4, RawDataRefImpl = \<lparr>d_a = 1, d_b = 0\<rparr>\<rparr>"
  using relocations_printed [of "\<lparr>Index = 4, RelCur = 0, UseSecondary = False\<rparr>"
      "exampleCfg (replicate 16 0x90) 4 False [relocAt 0, relocAt 4, relocAt 6, relocAt 12]
               (decodesAs True 4)" "[InstLine 4 4 (Mnemonic ''nop'') '''']" 4
      "machOObject x86 [0, 1]" "\<lparr>Offset = 4, RawDataRefImpl = \<lparr>d_a = 1, d_b = 0\<rparr>\<rparr>"]
    relocations_printed [of "\<lparr>Index = 4, RelCur = 0, UseSecondary = False\<rparr>"
      "exampleCfg (replicate 16 0x90) 4 False [relocAt 0, relocAt 4, relocAt 6, relocAt 12]
               (decodesAs True 4)" "[InstLine 4 4 (Mnemonic ''nop'') '''']" 4
      "machOObject x86_64 [5, 0]" "\<lparr>Offset = 4, RawDataRefImpl = \<lparr>d_a = 1, d_b = 0\<rparr>\<rparr>"]
    relocations_printed [of "\<lparr>Index = 4, RelCur = 0, UseSecondary = False\<rparr>"
      "exampleCfg (replicate 16 0x90) 4 False [relocAt 0, relocAt 4, relocAt 6, relocAt 12]
               (decodesAs True 4)" "[InstLine 4 4 (Mnemonic ''nop'') '''']" 4
      "machOObject x86_64 [0, 0]" "\<lparr>Offset = 4, RawDataRefImpl = \<lparr>d_a = 1, d_b = 0\<rparr>\<rparr>"]
    relocations_printed [of "\<lparr>Index = 4, RelCur = 0, UseSecondary = False\<rparr>"
      "exampleCfg (replicate 16 0x90) 4 False [relocAt 0, relocAt 4, relocAt 6, relocAt 12]
               (decodesAs True 4)" "[InstLine 4 4 (Mnemonic ''nop'') '''']" 4
      "elfObject" "\<lparr>Offset = 4, RawDataRefImpl = \<lparr>d_a = 1, d_b = 0\<rparr>\<rparr>"]
  by (simp add: example_simps shown_def getHidden_def)

section \<open>Properties of the driver on example inputs\<close>

lemma zeroRun_Nil: "zeroRun [] = 0"
  by (simp add: zeroRun_def)

lemma zeroRun_Cons: "zeroRun (b # bs) = (if b = 0 then Suc (zeroRun bs) else 0)"
  by (simp add: zeroRun_def)

lemma zeroRun_replicate_append:
  "zeroRun (replicate n b @ bs) = (if b = 0 then n + zeroRun bs else if n = 0 then zeroRun bs else 0)"
  by (induction n) (auto simp: zeroRun_def)

lemma zeroRun_replicate: "zeroRun (replicate n b) = (if b = 0 then n else 0)"
  using zeroRun_replicate_append [of n b "[]"] by (auto simp: zeroRun_def)

lemmas zeroRun_simps = zeroRun_Nil zeroRun_Cons zeroRun_replicate zeroRun_replicate_append

text \<open>What the counting loop gives on any reference, from any start within its claimed size.\<close>

lemma countLeadingZeroes_eq:
  "N \<le> unat (ar_size B) \<Longrightarrow>
   countLeadingZeroes B N =
     (if unat (ar_size B) \<le> N + zeroRun (drop N (ar_data B)) then Inr (unat (ar_size B))
      else if N + zeroRun (drop N (ar_data B)) < length (ar_data B)
           then Inr (N + zeroRun (drop N (ar_data B)))
           else Inl OutOfBounds)"
proof (induction B N rule: countLeadingZeroes.induct)
  case (1 Buf N)
  show ?case
  proof (cases "N < unat (ar_size Buf)")
    case False
    then show ?thesis using "1.prems"
      by (subst countLeadingZeroes.simps) simp
  next
    case True
    show ?thesis
    proof (cases "N < length (ar_data Buf)")
      case False
      then show ?thesis using True
        by (subst countLeadingZeroes.simps) (simp add: zeroRun_Nil)
    next
      case lt: True
      then have d: "drop N (ar_data Buf) = ar_data Buf ! N # drop (Suc N) (ar_data Buf)"
        by (simp add: Cons_nth_drop_Suc)
      show ?thesis
      proof (cases "ar_data Buf ! N = 0")
        case z: True
        have "countLeadingZeroes Buf N = countLeadingZeroes Buf (N + 1)"
          using True z lt by (subst countLeadingZeroes.simps) simp
        also have "\<dots> = (if unat (ar_size Buf) \<le> N + 1 + zeroRun (drop (N + 1) (ar_data Buf))
            then Inr (unat (ar_size Buf))
            else if N + 1 + zeroRun (drop (N + 1) (ar_data Buf)) < length (ar_data Buf)
                 then Inr (N + 1 + zeroRun (drop (N + 1) (ar_data Buf)))
                 else Inl OutOfBounds)"
          using "1.IH" True z lt by simp
        finally show ?thesis using d z by (simp add: zeroRun_Cons)
      next
        case False
        then show ?thesis using True d lt
          by (subst countLeadingZeroes.simps) (simp add: zeroRun_Cons)
      qed
    qed
  qed
qed

lemma countSkippableZeroBytes_eq:
  "countSkippableZeroBytes B =
     (let z = zeroRun (ar_data B)
      in if unat (ar_size B) \<le> z
         then (if unat (ar_size B) < 8 then Inr 0 else Inr (ar_size B AND NOT 3))
         else if z < length (ar_data B)
              then (if z < 8 then Inr 0 else Inr (word_of_nat z AND NOT 3))
              else Inl OutOfBounds)"
  using countLeadingZeroes_eq [of 0 B]
  by (simp add: countSkippableZeroBytes_def Let_def)

lemmas body_simps = loopBody_def selectDecoder_def skippable_def skipWindow_def slice_def
  slice_from_def decodeUnit_def finishUnit_def printInst_def printInstDefault_def dumpBytes_def
  readBytes_def getHidden_def Let_def

lemma staleRelocation_skip:
  "loopBody staleRelocationCfg 36 \<lparr>Index = 16, RelCur = 0, UseSecondary = False\<rparr>
   = Inr ([Ellipsis 16 16], \<lparr>Index = 32, RelCur = 0, UseSecondary = False\<rparr>)"
  by (simp add: staleRelocationCfg_def example_simps body_simps countSkippableZeroBytes_eq
      zeroRun_simps)

lemma staleRelocation_decode:
  "loopBody staleRelocationCfg 36 \<lparr>Index = 32, RelCur = 0, UseSecondary = False\<rparr>
   = Inr ([InstLine 32 4 (Mnemonic ''nop'') '''', RelocLine (relocAt 20)],
          \<lparr>Index = 36, RelCur = 2, UseSecondary = False\<rparr>)"
  by (simp add: staleRelocationCfg_def example_simps body_simps countSkippableZeroBytes_eq
      zeroRun_simps)

text \<open>
  C7, on the failing input: with \<open>--start-address=16\<close> the loop starts at index 16 while
  the relocation at offset 0 is still pending. The window length \<open>0 - 16\<close> wraps, the
  sixteen zero bytes at 16..31 are skipped as one run, and the relocation at offset 20,
  inside that run, is printed behind the next instruction.
\<close>

theorem relocation_inside_skipped_run:
  "initialIndex (SectionAddr staleRelocationCfg) (StartAddress staleRelocationCfg) 0 0 = 16
   \<and> instructionLoop 2 staleRelocationCfg 36 \<lparr>Index = 16, RelCur = 0, UseSecondary = False\<rparr>
     = Some (Inr ([Ellipsis 16 16, InstLine 32 4 (Mnemonic ''nop'') '''', RelocLine (relocAt 20)],
                  \<lparr>Index = 36, RelCur = 2, UseSecondary = False\<rparr>))
   \<and> (16 :: u64) < Offset (relocAt 20) \<and> Offset (relocAt 20) < 16 + 16"
proof -
  have "instructionLoop (Suc (Suc 0)) staleRelocationCfg 36
          \<lparr>Index = 16, RelCur = 0, UseSecondary = False\<rparr>
     = Some (Inr ([Ellipsis 16 16, InstLine 32 4 (Mnemonic ''nop'') '''', RelocLine (relocAt 20)],
                  \<lparr>Index = 36, RelCur = 2, UseSecondary = False\<rparr>))"
    by (simp add: staleRelocation_skip staleRelocation_decode)
  moreover have
    "initialIndex (SectionAddr staleRelocationCfg) (StartAddress staleRelocationCfg) 0 0 = 16"
    by (simp add: initialIndex_def staleRelocationCfg_def example_simps)
  moreover have "instructionLoop 2 = instructionLoop (Suc (Suc 0))"
    by (simp only: numeral_2_eq_2)
  ultimately show ?thesis by (simp add: relocAt_def)
qed

section \<open>Forward progress of the instruction loop\<close>

lemma unat_and_not_3_le: "unat ((w :: u64) AND NOT 3) \<le> unat w"
  by (simp only: unat_and_not_3 diff_le_self)

lemma countSkippableZeroBytes_le_data:
  assumes "countSkippableZeroBytes W = Inr N"
  shows "unat N \<le> length (ar_data W)"
proof -
  let ?z = "zeroRun (ar_data W)"
  have z: "?z \<le> length (ar_data W)" by (rule zeroRun_le)
  have w: "unat (word_of_nat ?z :: u64) \<le> ?z"
    by (simp add: unat_of_nat)
  have a: "unat ((word_of_nat ?z :: u64) AND NOT 3) \<le> length (ar_data W)"
    using unat_and_not_3_le [of "word_of_nat ?z"] w z by linarith
  have b: "unat (ar_size W) \<le> ?z \<Longrightarrow> unat (ar_size W AND NOT 3) \<le> length (ar_data W)"
    using unat_and_not_3_le [of "ar_size W"] z by linarith
  show ?thesis
    using assms a b
    by (auto simp: countSkippableZeroBytes_eq Let_def split: if_splits)
qed

lemma Index_selectDecoder [simp]: "Index (selectDecoder cfg st) = Index st"
  by (simp add: selectDecoder_def Let_def)

lemma RelCur_selectDecoder [simp]: "RelCur (selectDecoder cfg st) = RelCur st"
  by (simp add: selectDecoder_def Let_def)

lemma finishUnit_Index: "Index (snd (finishUnit cfg out st Size)) = Index st + Size"
  by (simp add: finishUnit_def split: prod.splits)

lemma finishUnit_out: "\<exists>rl. fst (finishUnit cfg out st Size) = out @ rl"
  by (simp add: finishUnit_def split: prod.splits)

lemma unat_add_small:
  "unat (a :: u64) < 2 ^ 63 \<Longrightarrow> unat (b :: u64) < 2 ^ 63 \<Longrightarrow> unat (a + b) = unat a + unat b"
  by (subst unat_add_lem [symmetric]) simp

lemma max_one_word: "(if (x :: u64) = 0 then 1 else x) = max 1 x"
  using unat_gt_0 [of x] by (auto simp: max_def word_le_nat_alt)


lemma dumpARMELFData_size:
  "dumpARMELFData B I E = Inr S \<Longrightarrow> S = 1 \<or> S = 2 \<or> S = 4"
  by (auto simp: dumpARMELFData_def split: if_splits sum.splits)

lemma decodeUnit_result:
  assumes "decodeUnit cfg st = Inr (out, st')"
    and "slice_from (Bytes cfg) (Index st) = Inr Rest"
    and "D = getInstruction cfg (UseSecondary st) Rest (SectionAddr cfg + Index st)"
    and "S = (if DecodedSize D = 0 then 1 else DecodedSize D)"
  shows "\<exists>B body. slice (Bytes cfg) (Index st) S = Inr B
           \<and> printInst (PIP cfg) (NoShowRawInsn cfg) D B (SectionAddr cfg + Index st) (Rels cfg)
               = Inr body
           \<and> finishUnit cfg [InstLine (Index st) S body (Comments D)] st S = (out, st')"
proof -
  have e: "decodeUnit cfg st =
     (case slice (Bytes cfg) (Index st) S of
        Inl e \<Rightarrow> Inl e
      | Inr B \<Rightarrow>
          (case printInst (PIP cfg) (NoShowRawInsn cfg) D B (SectionAddr cfg + Index st)
                  (Rels cfg) of
             Inl e \<Rightarrow> Inl e
           | Inr body \<Rightarrow> Inr (finishUnit cfg [InstLine (Index st) S body (Comments D)] st S)))"
    unfolding assms(4) assms(3) decodeUnit_def assms(2) Let_def by simp
  show ?thesis using assms(1) unfolding e by (auto split: sum.splits)
qed

text \<open>One turn of the loop: the index moves on, without wrapping, by what the turn printed.\<close>

lemma loopBody_progress:
  assumes wf: "wf_ArrayRef (Bytes cfg)" and le: "End \<le> ar_size (Bytes cfg)"
    and dec: "decoderSizeBound cfg"
    and lt: "Index st < End" and body: "loopBody cfg End st = Inr (out, st')"
  shows "out \<noteq> [] \<and> unitSize (hd out) \<noteq> 0 \<and> Index st' = Index st + unitSize (hd out)
         \<and> unat (Index st') = unat (Index st) + unat (unitSize (hd out))
         \<and> (case hd out of
               Ellipsis I N \<Rightarrow> skippable cfg End (selectDecoder cfg st) = Inr N
             | InstLine I S T C \<Rightarrow>
                 (\<exists>Rest. slice_from (Bytes cfg) (Index st) = Inr Rest
                    \<and> S = max 1 (DecodedSize (getInstruction cfg
                          (UseSecondary (selectDecoder cfg st)) Rest (SectionAddr cfg + Index st))))
             | DataLine I S \<Rightarrow> S = 1 \<or> S = 2 \<or> S = 4
             | RelocLine R \<Rightarrow> False)"
proof -
  let ?st = "selectDecoder cfg st"
  have len: "length (ar_data (Bytes cfg)) = unat (ar_size (Bytes cfg))"
    and small: "unat (ar_size (Bytes cfg)) < 2 ^ 63"
    using wf by (simp_all add: wf_ArrayRef_def)
  have I: "unat (Index st) < unat End" "unat End \<le> unat (ar_size (Bytes cfg))"
    using lt le by (simp_all add: word_less_nat_alt word_le_nat_alt)
  then have Ismall: "unat (Index st) < 2 ^ 63" using small by linarith
  show ?thesis
  proof (cases "CheckARMELFData cfg
            \<and> getMappingSymbolKind (MappingSymbols cfg) (Index ?st) = CHR ''d''")
    case True
    then obtain S where S: "dumpARMELFData (Bytes cfg) (Index st) End = Inr S"
      and r: "finishUnit cfg [DataLine (Index st) S] ?st S = (out, st')"
      using body by (auto simp: loopBody_def Let_def split: sum.splits)
    have S124: "S = 1 \<or> S = 2 \<or> S = 4" using S by (rule dumpARMELFData_size)
    then have Ssmall: "unat S < 2 ^ 63" and S0: "S \<noteq> 0" by auto
    have i: "Index st' = Index st + S"
      using finishUnit_Index [of cfg "[DataLine (Index st) S]" ?st S] r by simp
    obtain rl where o: "out = DataLine (Index st) S # rl"
      using finishUnit_out [of cfg "[DataLine (Index st) S]" ?st S] r by auto
    show ?thesis
      using i o S124 S0 unat_add_small [OF Ismall Ssmall] by simp
  next
    case False
    then obtain N where N: "skippable cfg End ?st = Inr N"
      and r: "(if N \<noteq> 0 then Inr ([Ellipsis (Index ?st) N], ?st\<lparr>Index := Index ?st + N\<rparr>)
               else decodeUnit cfg ?st) = Inr (out, st')"
      using body by (auto simp: loopBody_def Let_def split: sum.splits)
    show ?thesis
    proof (cases "N = 0")
      case nz: False
      then have o: "out = [Ellipsis (Index st) N]" and i: "Index st' = Index st + N"
        using r by auto
      obtain M where c: "countSkippableZeroBytes
            \<lparr>ar_data = drop (unat (Index st)) (ar_data (Bytes cfg)), ar_size = M\<rparr> = Inr N"
        using N nz
        by (auto simp: skippable_def skipWindow_def slice_def Let_def
            split: if_splits sum.splits)
      have "unat N \<le> length (ar_data (Bytes cfg)) - unat (Index st)"
        using countSkippableZeroBytes_le_data [OF c] by simp
      then have "unat N < 2 ^ 63" using len small by linarith
      then show ?thesis
        using o i nz N unat_add_small [OF Ismall] by simp
    next
      case z: True
      then have d: "decodeUnit cfg ?st = Inr (out, st')" using r by simp
      then obtain Rest where Rest: "slice_from (Bytes cfg) (Index st) = Inr Rest"
        by (auto simp: decodeUnit_def split: sum.splits)
      define D where "D = getInstruction cfg (UseSecondary ?st) Rest (SectionAddr cfg + Index st)"
      define S where "S = (if DecodedSize D = 0 then 1 else DecodedSize D)"
      have Rest': "slice_from (Bytes cfg) (Index ?st) = Inr Rest" using Rest by simp
      have D': "D = getInstruction cfg (UseSecondary ?st) Rest (SectionAddr cfg + Index ?st)"
        by (simp add: D_def)
      obtain body where r2: "finishUnit cfg [InstLine (Index st) S body (Comments D)] ?st S
                  = (out, st')"
        using decodeUnit_result [OF d Rest' D' S_def] by auto
      have "DecodedSize D < 2 ^ 63" using dec by (simp add: decoderSizeBound_def D_def)
      then have "unat (DecodedSize D) < 2 ^ 63" by (simp add: word_less_nat_alt)
      then have Ssmall: "unat S < 2 ^ 63" by (simp add: S_def)
      have S0: "S \<noteq> 0" by (simp add: S_def)
      have Smax: "S = max 1 (DecodedSize D)" unfolding S_def by (rule max_one_word)
      have i: "Index st' = Index st + S"
        using finishUnit_Index [of cfg "[InstLine (Index st) S body (Comments D)]" ?st S]
          r2 by simp
      obtain rl where o: "out = InstLine (Index st) S body (Comments D) # rl"
        using finishUnit_out [of cfg "[InstLine (Index st) S body (Comments D)]" ?st S]
          r2 by auto
      show ?thesis
        using i o S0 Rest unat_add_small [OF Ismall Ssmall] Smax [unfolded D_def]
        by simp
    qed
  qed
qed


lemma instructionLoop_returns:
  assumes wf: "wf_ArrayRef (Bytes cfg)" and le: "End \<le> ar_size (Bytes cfg)"
    and dec: "decoderSizeBound cfg"
  shows "unat End - unat (Index st) \<le> fuel \<Longrightarrow> \<exists>r. instructionLoop fuel cfg End st = Some r"
proof (induction fuel arbitrary: st)
  case 0
  then have "\<not> Index st < End" by (simp add: word_less_nat_alt)
  then show ?case by simp
next
  case (Suc fuel)
  show ?case
  proof (cases "Index st < End")
    case False
    then show ?thesis by simp
  next
    case True
    show ?thesis
    proof (cases "loopBody cfg End st")
      case (Inl e)
      then show ?thesis using True by simp
    next
      case (Inr p)
      obtain out st' where p: "p = (out, st')" by (cases p)
      have "unat (Index st) < unat (Index st')"
        using loopBody_progress [OF wf le dec True Inr [unfolded p]]
        by (auto simp: unat_gt_0)
      then have "unat End - unat (Index st') \<le> fuel" using Suc.prems by linarith
      from Suc.IH [OF this] obtain r where "instructionLoop fuel cfg End st' = Some r" ..
      then show ?thesis using True Inr p by (auto split: sum.splits)
    qed
  qed
qed


text \<open>
  C4: in every turn of the instruction loop that does not fault, \<open>Index\<close> grows, without
  wrapping, by the size of the unit printed, which is not 0: the number of zero bytes
  skipped, the size of the datum dumped, or the decoder's size, 1 where it reported 0. So
  the loop from \<open>Index\<close> to \<open>End\<close> returns within \<open>End - Index\<close> turns. The section
  contents are a real buffer that holds the range, and the decoder's sizes are sizes of
  such buffers.
\<close>

theorem forward_progress:
  assumes "wf_ArrayRef (Bytes cfg)" and "End \<le> ar_size (Bytes cfg)" and "decoderSizeBound cfg"
  shows "(\<forall>st out st'. Index st < End \<and> loopBody cfg End st = Inr (out, st') \<longrightarrow>
            out \<noteq> [] \<and> unitSize (hd out) \<noteq> 0 \<and> Index st' = Index st + unitSize (hd out)
            \<and> unat (Index st') = unat (Index st) + unat (unitSize (hd out))
            \<and> (case hd out of
                  Ellipsis I N \<Rightarrow> skippable cfg End (selectDecoder cfg st) = Inr N
                | InstLine I S T C \<Rightarrow>
                    (\<exists>Rest. slice_from (Bytes cfg) (Index st) = Inr Rest
                       \<and> S = max 1 (DecodedSize (getInstruction cfg
                             (UseSecondary (selectDecoder cfg st)) Rest
                             (SectionAddr cfg + Index st))))
                | DataLine I S \<Rightarrow> S = 1 \<or> S = 2 \<or> S = 4
                | RelocLine R \<Rightarrow> False))
         \<and> (\<forall>st fuel. unat End - unat (Index st) \<le> fuel \<longrightarrow>
               (\<exists>r. instructionLoop fuel cfg End st = Some r))"
  using loopBody_progress [OF assms] instructionLoop_returns [OF assms] by blast

lemma wf_arrayRefFromBytes:
  "length bs < 2 ^ 63 \<Longrightarrow> wf_ArrayRef (arrayRefFromBytes bs)"
  by (simp add: wf_ArrayRef_def arrayRefFromBytes_def unat_of_nat)

theorem forward_progress_witness:
  "wf_ArrayRef (Bytes (exampleCfg (replicate 8 0x90) 0 False [] (decodesAs True 0)))
   \<and> 8 \<le> ar_size (Bytes (exampleCfg (replicate 8 0x90) 0 False [] (decodesAs True 0)))
   \<and> decoderSizeBound (exampleCfg (replicate 8 0x90) 0 False [] (decodesAs True 0))
   \<and> loopBody (exampleCfg (replicate 8 0x90) 0 False [] (decodesAs True 0)) 8
         \<lparr>Index = 0, RelCur = 0, UseSecondary = False\<rparr>
       = Inr ([InstLine 0 1 (Mnemonic ''nop'') ''''], \<lparr>Index = 1, RelCur = 0, UseSecondary = False\<rparr>)
   \<and> (\<exists>r. instructionLoop 8 (exampleCfg (replicate 8 0x90) 0 False [] (decodesAs True 0)) 8
              \<lparr>Index = 0, RelCur = 0, UseSecondary = False\<rparr> = Some r)"
proof -
  let ?cfg = "exampleCfg (replicate 8 0x90) 0 False [] (decodesAs True 0)"
  have h1: "wf_ArrayRef (Bytes ?cfg)"
    by (simp add: exampleCfg_def wf_arrayRefFromBytes)
  have h2: "8 \<le> ar_size (Bytes ?cfg)"
    by (simp add: example_simps)
  have h3: "decoderSizeBound ?cfg"
    by (simp add: decoderSizeBound_def example_simps)
  have b: "loopBody ?cfg 8 \<lparr>Index = 0, RelCur = 0, UseSecondary = False\<rparr>
       = Inr ([InstLine 0 1 (Mnemonic ''nop'') ''''], \<lparr>Index = 1, RelCur = 0, UseSecondary = False\<rparr>)"
    by (simp add: example_simps body_simps countSkippableZeroBytes_eq zeroRun_simps)
  have "\<exists>r. instructionLoop 8 ?cfg 8 \<lparr>Index = 0, RelCur = 0, UseSecondary = False\<rparr> = Some r"
    using forward_progress [OF h1 h2 h3] by simp
  then show ?thesis using h1 h2 h3 b by simp
qed

section \<open>Decode failures\<close>




























section \<open>Properties of the target resolution\<close>

lemma partition_point_loop_correct:
  "\<forall>i < length xs. P (xs ! i) \<longleftrightarrow> i < k \<Longrightarrow>
   first \<le> k \<Longrightarrow> k \<le> first + len \<Longrightarrow> first + len \<le> length xs \<Longrightarrow>
   partition_point_loop P xs first len = k"
proof (induction P xs first len rule: partition_point_loop.induct)
  case (1 P xs first len)
  note assm = "1.prems"(1)
  show ?case
  proof (cases "len = 0")
    case True
    then show ?thesis using "1.prems" by (subst partition_point_loop.simps) simp
  next
    case False
    let ?half = "len div 2"
    let ?mid = "first + ?half"
    have mid: "?mid < length xs" using False "1.prems" by simp
    show ?thesis
    proof (cases "P (xs ! ?mid)")
      case True
      then have "?mid < k" using assm mid by blast
      then have "partition_point_loop P xs (?mid + 1) (len - ?half - 1) = k"
        using "1.IH"(1) [OF False refl refl True assm] "1.prems" by simp
      then show ?thesis using False True
        by (subst partition_point_loop.simps) (simp add: Let_def)
    next
      case F: False
      then have "k \<le> ?mid" using assm mid by (meson not_le_imp_less)
      then have "partition_point_loop P xs first ?half = k"
        using "1.IH"(2) [OF False refl refl F assm] "1.prems" by simp
      then show ?thesis using False F
        by (subst partition_point_loop.simps) (simp add: Let_def)
    qed
  qed
qed

lemma sorted_takeWhile_index:
  fixes f :: "'a \<Rightarrow> u64"
  assumes "sorted (map f xs)" and "i < length xs"
  shows "f (xs ! i) \<le> t \<longleftrightarrow> i < length (takeWhile (\<lambda>x. f x \<le> t) xs)"
proof
  let ?k = "length (takeWhile (\<lambda>x. f x \<le> t) xs)"
  assume le: "f (xs ! i) \<le> t"
  show "i < ?k"
  proof (rule ccontr)
    assume "\<not> i < ?k"
    then have k: "?k \<le> i" by simp
    then have kl: "?k < length xs" using assms(2) by simp
    then have "\<not> f (xs ! ?k) \<le> t" by (rule nth_length_takeWhile)
    moreover have "f (xs ! ?k) \<le> f (xs ! i)"
      using sorted_nth_mono [OF assms(1), of ?k i] k assms(2) kl by simp
    ultimately show False using le by simp
  qed
next
  assume "i < length (takeWhile (\<lambda>x. f x \<le> t) xs)"
  then have "takeWhile (\<lambda>x. f x \<le> t) xs ! i \<in> set (takeWhile (\<lambda>x. f x \<le> t) xs)"
    and "takeWhile (\<lambda>x. f x \<le> t) xs ! i = xs ! i"
    by (rule nth_mem, rule takeWhile_nth)
  then show "f (xs ! i) \<le> t" by (metis set_takeWhileD)
qed

lemma partition_point_sorted:
  fixes f :: "'a \<Rightarrow> u64"
  assumes "sorted (map f xs)"
  shows "partition_point xs (\<lambda>x. f x \<le> t) = length (takeWhile (\<lambda>x. f x \<le> t) xs)"
  unfolding partition_point_def
  by (rule partition_point_loop_correct)
     (simp_all add: sorted_takeWhile_index [OF assms] length_takeWhile_le)

lemma sorted_filter_takeWhile:
  fixes f :: "'a \<Rightarrow> u64"
  shows "sorted (map f xs) \<Longrightarrow> filter (\<lambda>x. f x \<le> t) xs = takeWhile (\<lambda>x. f x \<le> t) xs"
proof (induction xs)
  case Nil
  then show ?case by simp
next
  case (Cons x xs)
  show ?case
  proof (cases "f x \<le> t")
    case True
    then show ?thesis using Cons by simp
  next
    case False
    then have "\<forall>y \<in> set xs. \<not> f y \<le> t" using Cons.prems by auto
    then show ?thesis using False by (simp add: filter_empty_conv)
  qed
qed

text \<open>In a table in address order the bisection finds the last symbol not above the target.\<close>

lemma partition_point_lastAtOrBelow:
  assumes "sorted (map Addr Table)"
  shows "(let It = partition_point Table (\<lambda>Sym. Addr Sym \<le> Target)
          in if It \<noteq> 0 then Some (Table ! (It - 1)) else None) = lastAtOrBelow Target Table"
proof -
  let ?P = "\<lambda>Sym. Addr Sym \<le> Target"
  let ?tw = "takeWhile ?P Table"
  have pp: "partition_point Table ?P = length ?tw"
    using partition_point_sorted [OF assms] .
  have f: "filter ?P Table = ?tw" using sorted_filter_takeWhile [OF assms] .
  show ?thesis
  proof (cases "?tw = []")
    case True
    then show ?thesis using pp f by (simp add: lastAtOrBelow_def)
  next
    case False
    then have "last ?tw = ?tw ! (length ?tw - 1)" by (rule last_conv_nth)
    also have "\<dots> = Table ! (length ?tw - 1)" using False by (simp add: takeWhile_nth)
    finally have l: "last ?tw = Table ! (length ?tw - 1)" .
    obtain y ys where c: "?tw = y # ys" using False by (auto simp: neq_Nil_conv)
    have "lastAtOrBelow Target Table = Some (last ?tw)"
      unfolding lastAtOrBelow_def f by (simp add: c)
    then show ?thesis using pp l False by simp
  qed
qed

lemma findTargetSym_firstMatch:
  "\<forall>Table \<in> set Tables. sorted (map Addr Table) \<Longrightarrow>
   findTargetSym Target Tables = firstMatch Target Tables"
proof (induction Tables)
  case Nil
  then show ?case by simp
next
  case (Cons Table Tables)
  then have s: "sorted (map Addr Table)" by simp
  show ?case
    using partition_point_lastAtOrBelow [OF s, of Target] Cons
    by (auto simp: Let_def split: if_splits option.splits)
qed


lemma sorted_le_last:
  fixes f :: "'a \<Rightarrow> u64"
  assumes "sorted (map f xs)" and "x \<in> set xs"
  shows "f x \<le> f (last xs)"
proof -
  obtain i where i: "i < length xs" "xs ! i = x"
    using assms(2) by (auto simp: in_set_conv_nth)
  then have ne: "xs \<noteq> []" by auto
  have "map f xs ! i \<le> map f xs ! (length xs - 1)"
    using i by (intro sorted_nth_mono [OF assms(1)]) simp_all
  then show ?thesis using i ne by (simp add: last_conv_nth)
qed

lemma Max_sorted_last:
  fixes f :: "'a \<Rightarrow> u64"
  assumes "sorted (map f xs)" and "xs \<noteq> []"
  shows "Max (f ` set xs) = f (last xs)"
  using assms sorted_le_last [OF assms(1)]
  by (intro Max_eqI) auto

text \<open>
  Walking down from the partition point: the sections of the base address met first, the
  later ones first. The mark 0 for "not set" does no harm in a sorted list, where the
  sections before one at address 0 are at address 0 too.
\<close>

lemma collectTargetSections_sorted:
  assumes s: "sorted (map fst SA)"
  shows "k \<le> length SA \<Longrightarrow> (T \<noteq> 0 \<Longrightarrow> \<forall>i<k. fst (SA ! i) \<le> T) \<Longrightarrow>
         collectTargetSections SA k T
           = rev (map snd (filter (\<lambda>Sec. fst Sec = (if T = 0 \<and> 0 < k then fst (SA ! (k - 1)) else T))
                        (take k SA)))"
proof (induction k arbitrary: T)
  case 0
  then show ?case by simp
next
  case (Suc k)
  define a where "a = fst (SA ! k)"
  define T1 where "T1 = (if T = 0 then a else T)"
  have kl: "k < length SA" using Suc.prems(1) by simp
  have mono: "\<And>i. i \<le> k \<Longrightarrow> fst (SA ! i) \<le> a"
    using sorted_nth_mono [OF s, of _ k] kl by (simp add: a_def)
  have tk: "take (Suc k) SA = take k SA @ [SA ! k]"
    using kl by (rule take_Suc_conv_app_nth)
  show ?case
  proof (cases "a = T1")
    case False
    then have T0: "T \<noteq> 0" and aT: "a \<noteq> T" by (auto simp: T1_def)
    have "a \<le> T" using Suc.prems(2) [OF T0] by (simp add: a_def)
    then have "a < T" using aT by simp
    have "\<forall>x \<in> set (take (Suc k) SA). fst x \<noteq> T"
    proof
      fix x assume "x \<in> set (take (Suc k) SA)"
      then obtain i where i: "i < Suc k" "x = SA ! i"
        using kl by (auto simp: in_set_conv_nth)
      then have "fst x \<le> a" using mono [of i] by simp
      then show "fst x \<noteq> T" using \<open>a < T\<close> by auto
    qed
    then have "filter (\<lambda>Sec. fst Sec = T) (take (Suc k) SA) = []"
      by (simp add: filter_empty_conv)
    then show ?thesis using False T0
      by (simp add: a_def [symmetric] T1_def Let_def)
  next
    case True
    have pre: "T1 \<noteq> 0 \<Longrightarrow> \<forall>i<k. fst (SA ! i) \<le> T1"
      using mono True by simp
    have IH: "collectTargetSections SA k T1
           = rev (map snd (filter (\<lambda>Sec. fst Sec = (if T1 = 0 \<and> 0 < k then fst (SA ! (k - 1)) else T1))
                        (take k SA)))"
      using Suc.IH [of T1] kl pre by simp
    have "(if T1 = 0 \<and> 0 < k then fst (SA ! (k - 1)) else T1) = T1"
    proof (cases "T1 = 0 \<and> 0 < k")
      case z: True
      then have "fst (SA ! (k - 1)) \<le> 0" using mono [of "k - 1"] True by simp
      then show ?thesis using z by simp
    next
      case False
      then show ?thesis by auto
    qed
    then have IH': "collectTargetSections SA k T1
           = rev (map snd (filter (\<lambda>Sec. fst Sec = T1) (take k SA)))"
      using IH by simp
    have "collectTargetSections SA (Suc k) T = snd (SA ! k) # collectTargetSections SA k T1"
      using True unfolding T1_def a_def by (simp add: Let_def)
    moreover have "(if T = 0 \<and> 0 < Suc k then fst (SA ! (Suc k - 1)) else T) = T1"
      by (simp add: T1_def a_def)
    ultimately show ?thesis
      using IH' True by (simp add: tk a_def [symmetric])
  qed
qed

lemma collectTargetSections_largest:
  assumes s: "sorted (map fst SA)"
  shows "collectTargetSections SA (partition_point SA (\<lambda>Sec. fst Sec \<le> Target)) 0
           = sectionsAtLargestBase SA Target"
proof -
  let ?P = "\<lambda>Sec :: u64 \<times> nat. fst Sec \<le> Target"
  define k where "k = length (takeWhile ?P SA)"
  have pp: "partition_point SA ?P = k"
    using partition_point_sorted [OF s] by (simp add: k_def)
  have kl: "k \<le> length SA" by (simp add: k_def length_takeWhile_le)
  have "takeWhile ?P SA = take k SA"
    unfolding k_def by (rule takeWhile_eq_take)
  then have f: "filter ?P SA = take k SA"
    using sorted_filter_takeWhile [OF s, of Target] by simp
  have c: "collectTargetSections SA k 0
       = rev (map snd (filter (\<lambda>Sec. fst Sec = (if 0 < k then fst (SA ! (k - 1)) else 0))
                        (take k SA)))"
    using collectTargetSections_sorted [OF s kl, of 0] by simp
  show ?thesis
  proof (cases "k = 0")
    case True
    then show ?thesis using pp f by (simp add: sectionsAtLargestBase_def)
  next
    case False
    then have ne: "take k SA \<noteq> []" using kl by auto
    then obtain y ys where yys: "take k SA = y # ys" by (cases "take k SA") auto
    have st: "sorted (map fst (take k SA))"
      using s by (simp add: take_map [symmetric] sorted_wrt_take)
    have "last (take k SA) = take k SA ! (length (take k SA) - 1)"
      using ne by (rule last_conv_nth)
    also have "\<dots> = SA ! (k - 1)" using False kl by simp
    finally have "last (take k SA) = SA ! (k - 1)" .
    then have m: "Max (fst ` set (take k SA)) = fst (SA ! (k - 1))"
      using Max_sorted_last [OF st ne] by simp
    have "k - 1 < length SA" "k - 1 < k" using False kl by simp_all
    then have mle: "fst (SA ! (k - 1)) \<le> Target"
      using sorted_takeWhile_index [OF s, of "k - 1" Target] unfolding k_def by blast
    have "\<forall>x \<in> set (drop k SA). \<not> fst x \<le> Target"
    proof
      fix x assume "x \<in> set (drop k SA)"
      then obtain i where i: "i < length SA - k" "x = SA ! (k + i)"
        by (auto simp: in_set_conv_nth)
      then show "\<not> fst x \<le> Target"
        using sorted_takeWhile_index [OF s, of "k + i" Target] by (simp add: k_def)
    qed
    then have "filter (\<lambda>Sec. fst Sec = fst (SA ! (k - 1))) (drop k SA) = []"
      using mle by (auto simp: filter_empty_conv)
    then have feq: "filter (\<lambda>Sec. fst Sec = fst (SA ! (k - 1))) SA
                 = filter (\<lambda>Sec. fst Sec = fst (SA ! (k - 1))) (take k SA)"
      using filter_append [of _ "take k SA" "drop k SA"] by simp
    have "sectionsAtLargestBase SA Target
            = rev (map snd (filter (\<lambda>Sec. fst Sec = Max (fst ` set (take k SA))) SA))"
      unfolding sectionsAtLargestBase_def f by (simp add: yys)
    also have "\<dots> = rev (map snd (filter (\<lambda>Sec. fst Sec = fst (SA ! (k - 1))) (take k SA)))"
      unfolding m feq ..
    finally have "sectionsAtLargestBase SA Target
            = rev (map snd (filter (\<lambda>Sec. fst Sec = fst (SA ! (k - 1))) (take k SA)))" .
    then show ?thesis using c pp False by simp
  qed
qed


text \<open>
  C6: the tables searched for a target are the current section's table in a relocatable
  object, and else the tables of the sections whose base address is the largest one not
  above the target; the table of absolute symbols comes last. In each table the bisection
  finds the last symbol whose address is not above the target, and the first table that
  has such a symbol gives the answer. The section addresses and the tables are in address
  order, as the driver sorts them.
\<close>

theorem target_resolution:
  assumes "sorted (map fst SecAddrs)"
    and "\<forall>Table \<in> set ((if Reloc then [Syms]
                            else map AllSyms (sectionsAtLargestBase SecAddrs Target)) @ [AbsSyms]).
           sorted (map Addr Table)"
  shows "targetSectionSymbols Reloc SecAddrs AllSyms Syms AbsSyms Target
           = (if Reloc then [Syms] else map AllSyms (sectionsAtLargestBase SecAddrs Target))
             @ [AbsSyms]
         \<and> resolveTarget Reloc SecAddrs AllSyms Syms AbsSyms Target
           = firstMatch Target
               ((if Reloc then [Syms] else map AllSyms (sectionsAtLargestBase SecAddrs Target))
                @ [AbsSyms])"
proof -
  have t: "targetSectionSymbols Reloc SecAddrs AllSyms Syms AbsSyms Target
           = (if Reloc then [Syms] else map AllSyms (sectionsAtLargestBase SecAddrs Target))
             @ [AbsSyms]"
    using collectTargetSections_largest [OF assms(1), of Target]
    by (simp add: targetSectionSymbols_def)
  have "resolveTarget Reloc SecAddrs AllSyms Syms AbsSyms Target
           = firstMatch Target
               ((if Reloc then [Syms] else map AllSyms (sectionsAtLargestBase SecAddrs Target))
                @ [AbsSyms])"
    unfolding resolveTarget_def t using assms(2) by (rule findTargetSym_firstMatch)
  with t show ?thesis by simp
qed

theorem target_resolution_witness:
  "sorted (map fst exampleSections)
   \<and> sorted (map Addr (exampleSymbols 3)) \<and> sorted (map Addr (exampleSymbols 2))
   \<and> sorted (map Addr ([] :: SectionSymbolsTy))
   \<and> targetSectionSymbols False exampleSections exampleSymbols [] [] 0x1c
       = [exampleSymbols 3, exampleSymbols 2, []]
   \<and> resolveTarget False exampleSections exampleSymbols [] [] 0x1c
       = Some \<lparr>Addr = 0x18, Name = ''g'', Kind = ElfType STT_FUNC\<rparr>"
proof -
  have l: "sectionsAtLargestBase exampleSections 0x1c = [3, 2]"
    by (simp add: sectionsAtLargestBase_def exampleSections_def)
  have h1: "sorted (map fst exampleSections)"
    by (simp add: exampleSections_def)
  have h2: "\<forall>Table \<in> set ((if False then [[]]
                            else map exampleSymbols (sectionsAtLargestBase exampleSections 0x1c))
                          @ [[]]).
           sorted (map Addr Table)"
    by (simp add: l exampleSymbols_def)
  from target_resolution [OF h1 h2] h1 h2 show ?thesis
    by (simp add: l exampleSymbols_def lastAtOrBelow_def)
qed

section \<open>Properties of the live-variable columns\<close>

lemma isActive_newColumn: "\<not> isActive newColumn"
  by (simp add: isActive_def newColumn_def)

lemma firstInactive_lowestFree:
  "firstInactive Cols n
     = (if lowestFree Cols < length Cols then Some (n + lowestFree Cols) else None)"
  by (induction Cols arbitrary: n) (auto simp: lowestFree_def)

lemma lowestFree_le: "lowestFree Cols \<le> length Cols"
  by (simp add: lowestFree_def length_takeWhile_le)

lemma lowestFree_below: "j < lowestFree Cols \<Longrightarrow> isActive (Cols ! j)"
  unfolding lowestFree_def
  by (metis nth_mem set_takeWhileD takeWhile_nth)

lemma lowestFree_free: "lowestFree Cols < length Cols \<Longrightarrow> \<not> isActive (Cols ! lowestFree Cols)"
  unfolding lowestFree_def by (rule nth_length_takeWhile)

text \<open>
  The free column: the lowest inactive one, and, where every column is active, the first
  of the columns added, after which the array has twice its size at least, and one column
  at least.
\<close>

lemma findFreeColumn_lowest:
  assumes g: "growsTo G"
  shows "\<exists>k. findFreeColumn G Cols = (lowestFree Cols, Cols @ replicate k newColumn)
           \<and> lowestFree Cols < length Cols + k
           \<and> (lowestFree Cols = length Cols \<longrightarrow> max (length Cols * 2) 1 \<le> length Cols + k)"
proof (cases "lowestFree Cols < length Cols")
  case True
  then have "findFreeColumn G Cols = (lowestFree Cols, Cols @ replicate 0 newColumn)"
    by (simp add: findFreeColumn_def firstInactive_lowestFree)
  then show ?thesis using True by (intro exI [of _ 0]) simp
next
  case False
  then have e: "lowestFree Cols = length Cols" using lowestFree_le [of Cols] by simp
  obtain k where k: "G Cols (max (length Cols * 2) 1) = Cols @ replicate k newColumn"
    and n: "max (length Cols * 2) 1 \<le> length Cols + k"
    using g unfolding growsTo_def by blast
  have "findFreeColumn G Cols = (lowestFree Cols, Cols @ replicate k newColumn)"
    using False e k by (simp add: findFreeColumn_def firstInactive_lowestFree Let_def)
  moreover have "length Cols < length Cols + k" using n by (cases Cols) (auto simp: max_def)
  ultimately show ?thesis using e n by (intro exI [of _ k]) simp
qed

lemma pass2_assigns:
  assumes g: "growsTo G" and new: "word_of_nat V \<notin> set Checked"
    and live: "liveAtAddress (LVs ! V) ThisAddr \<or> liveAtAddress (LVs ! V) NextAddr"
  shows "\<exists>k. pass2 G LVs ThisAddr NextAddr Checked Cols V
             = (Cols @ replicate k newColumn)
                 [lowestFree Cols := \<lparr>VarIdx = word_of_nat V,
                     LiveIn = liveAtAddress (LVs ! V) ThisAddr,
                     LiveOut = liveAtAddress (LVs ! V) NextAddr, MustDrawLabel = True\<rparr>]
           \<and> lowestFree Cols < length Cols + k
           \<and> (lowestFree Cols = length Cols \<longrightarrow> max (length Cols * 2) 1 \<le> length Cols + k)"
proof -
  obtain k where f: "findFreeColumn G Cols = (lowestFree Cols, Cols @ replicate k newColumn)"
    and r: "lowestFree Cols < length Cols + k"
      "lowestFree Cols = length Cols \<longrightarrow> max (length Cols * 2) 1 \<le> length Cols + k"
    using findFreeColumn_lowest [OF g, of Cols] by blast
  have "pass2 G LVs ThisAddr NextAddr Checked Cols V
             = (Cols @ replicate k newColumn)
                 [lowestFree Cols := \<lparr>VarIdx = word_of_nat V,
                     LiveIn = liveAtAddress (LVs ! V) ThisAddr,
                     LiveOut = liveAtAddress (LVs ! V) NextAddr, MustDrawLabel = True\<rparr>]"
    using new live by (auto simp: pass2_def Let_def f)
  then show ?thesis using r by blast
qed

lemma pass2_keeps:
  assumes g: "growsTo G" and c: "c < length Cols" and a: "isActive (Cols ! c)"
  shows "c < length (pass2 G LVs ThisAddr NextAddr Checked Cols V)
         \<and> pass2 G LVs ThisAddr NextAddr Checked Cols V ! c = Cols ! c"
proof -
  obtain k where f: "findFreeColumn G Cols = (lowestFree Cols, Cols @ replicate k newColumn)"
    using findFreeColumn_lowest [OF g, of Cols] by blast
  have "lowestFree Cols \<noteq> c" using lowestFree_free [of Cols] c a by auto
  then have "c < length ((Cols @ replicate k newColumn)[lowestFree Cols := x])
             \<and> (Cols @ replicate k newColumn)[lowestFree Cols := x] ! c = Cols ! c" for x
    using c by (simp add: nth_append)
  then show ?thesis using c by (simp add: pass2_def Let_def f)
qed

lemma pass2_length:
  assumes g: "growsTo G"
  shows "length Cols \<le> length (pass2 G LVs ThisAddr NextAddr Checked Cols V)"
proof -
  obtain k where f: "findFreeColumn G Cols = (lowestFree Cols, Cols @ replicate k newColumn)"
    using findFreeColumn_lowest [OF g, of Cols] by blast
  show ?thesis by (simp add: pass2_def Let_def f)
qed

lemma foldl_pass2_keeps:
  assumes g: "growsTo G"
  shows "c < length Cols \<Longrightarrow> isActive (Cols ! c) \<Longrightarrow>
   c < length (foldl (pass2 G LVs ThisAddr NextAddr Checked) Cols Vs)
   \<and> foldl (pass2 G LVs ThisAddr NextAddr Checked) Cols Vs ! c = Cols ! c"
proof (induction Vs arbitrary: Cols)
  case Nil
  then show ?case by simp
next
  case (Cons V Vs)
  note k = pass2_keeps [OF g Cons.prems, of LVs ThisAddr NextAddr Checked V]
  from k Cons.prems(2) have "isActive (pass2 G LVs ThisAddr NextAddr Checked Cols V ! c)" by simp
  from Cons.IH [OF conjunct1 [OF k] this] k show ?case by simp
qed

lemma foldl_pass2_length:
  assumes g: "growsTo G"
  shows "length Cols \<le> length (foldl (pass2 G LVs ThisAddr NextAddr Checked) Cols Vs)"
proof (induction Vs arbitrary: Cols)
  case Nil
  then show ?case by simp
next
  case (Cons V Vs)
  have "length Cols \<le> length (pass2 G LVs ThisAddr NextAddr Checked Cols V)"
    using g by (rule pass2_length)
  also have "\<dots> \<le> length (foldl (pass2 G LVs ThisAddr NextAddr Checked)
                            (pass2 G LVs ThisAddr NextAddr Checked Cols V) Vs)"
    by (rule Cons.IH)
  finally show ?case by simp
qed

text \<open>One \<open>update\<close> leaves a variable that is live at either address in its column.\<close>

lemma update_keeps:
  assumes g: "growsTo G" and "c < length Cols" and "isActive (Cols ! c)"
    and "liveAtAddress (LVs ! unat (VarIdx (Cols ! c))) ThisAddr
         \<or> liveAtAddress (LVs ! unat (VarIdx (Cols ! c))) NextAddr"
  shows "c < length (update G LVs Cols ThisAddr NextAddr Inc)
         \<and> VarIdx (update G LVs Cols ThisAddr NextAddr Inc ! c) = VarIdx (Cols ! c)"
proof -
  let ?P1 = "map (pass1 LVs ThisAddr NextAddr) Cols"
  have v: "VarIdx (?P1 ! c) = VarIdx (Cols ! c)"
    using assms by (auto simp: pass1_def Let_def)
  then have a: "isActive (?P1 ! c)" using assms(3) by (simp add: isActive_def)
  have l: "c < length ?P1" using assms(2) by simp
  show ?thesis
    using foldl_pass2_keeps [OF g l a] v l
    by (simp add: update_def Let_def)
qed

lemma updates_keep:
  assumes g: "growsTo G"
  shows "c < length Cols \<Longrightarrow> isActive (Cols ! c) \<Longrightarrow>
   (\<forall>call \<in> set calls. liveAtAddress (LVs ! unat (VarIdx (Cols ! c))) (fst call)
        \<or> liveAtAddress (LVs ! unat (VarIdx (Cols ! c))) (fst (snd call))) \<Longrightarrow>
   c < length (updates G LVs Cols calls)
   \<and> VarIdx (updates G LVs Cols calls ! c) = VarIdx (Cols ! c)"
proof (induction calls arbitrary: Cols)
  case Nil
  then show ?case by (simp add: updates_def)
next
  case (Cons call calls)
  obtain t n inc where call: "call = (t, n, inc)" by (cases call)
  have live: "liveAtAddress (LVs ! unat (VarIdx (Cols ! c))) t
         \<or> liveAtAddress (LVs ! unat (VarIdx (Cols ! c))) n"
    using Cons.prems(3) call by simp
  note u = update_keeps [OF g Cons.prems(1,2) live, of inc]
  have a: "isActive (update G LVs Cols t n inc ! c)"
    using u Cons.prems(2) by (simp add: isActive_def)
  have r: "\<forall>call \<in> set calls.
        liveAtAddress (LVs ! unat (VarIdx (update G LVs Cols t n inc ! c))) (fst call)
        \<or> liveAtAddress (LVs ! unat (VarIdx (update G LVs Cols t n inc ! c))) (fst (snd call))"
    using u Cons.prems(3) by simp
  from Cons.IH [OF conjunct1 [OF u] a r] u
  show ?case by (simp add: updates_def call)
qed

lemma variable_index_active:
  assumes "V < unat (w :: u32)"
  shows "isActive \<lparr>VarIdx = word_of_nat V, LiveIn = a, LiveOut = b, MustDrawLabel = d\<rparr>"
proof -
  have "unat w < 2 ^ 32" using unsigned_less [of w, where 'a = nat] by simp
  then have "V < 2 ^ 32 - 1" using assms by linarith
  then have "unat (word_of_nat V :: u32) = V" by (simp add: unat_of_nat)
  moreover have "unat (- 1 :: u32) = 2 ^ 32 - 1"
    by (simp add: unsigned_minus_1_eq_mask mask_eq_exp_minus_1)
  ultimately have "(word_of_nat V :: u32) \<noteq> - 1" using \<open>V < 2 ^ 32 - 1\<close> by auto
  then show ?thesis by (simp add: isActive_def NullVarIdx_def)
qed

text \<open>
  The column of a variable that becomes live, in the result of the \<open>update\<close> call.
\<close>

lemma update_assigns:
  assumes g: "growsTo G" and V: "V < unat (word_of_nat (length LVs) :: u32)"
    and new: "word_of_nat V \<notin> set (map VarIdx (filter isActive Cols))"
    and live: "liveAtAddress (LVs ! V) ThisAddr \<or> liveAtAddress (LVs ! V) NextAddr"
    and B: "Before = columnsWhenReached G LVs Cols ThisAddr NextAddr V"
    and A: "After = update G LVs Cols ThisAddr NextAddr True"
  shows "lowestFree Before < length After
         \<and> After ! lowestFree Before
             = \<lparr>VarIdx = word_of_nat V, LiveIn = liveAtAddress (LVs ! V) ThisAddr,
                LiveOut = liveAtAddress (LVs ! V) NextAddr, MustDrawLabel = True\<rparr>
         \<and> (lowestFree Before = length Before \<longrightarrow> max (length Before * 2) 1 \<le> length After)
         \<and> (\<forall>c < length Before. isActive (Before ! c) \<longrightarrow> After ! c = Before ! c)"
proof -
  let ?f = "pass2 G LVs ThisAddr NextAddr (map VarIdx (filter isActive Cols))"
  let ?P1 = "map (pass1 LVs ThisAddr NextAddr) Cols"
  let ?End = "unat (word_of_nat (length LVs) :: u32)"
  let ?col = "\<lparr>VarIdx = word_of_nat V, LiveIn = liveAtAddress (LVs ! V) ThisAddr,
                LiveOut = liveAtAddress (LVs ! V) NextAddr, MustDrawLabel = True\<rparr>"
  let ?i = "lowestFree Before"
  have s: "[0 ..< ?End] = [0 ..< V] @ V # [Suc V ..< ?End]"
    using V by (metis less_imp_le_nat upt_add_eq_append upt_conv_Cons add_0 le0
        le_add_diff_inverse)
  have Af: "After = foldl ?f (?f Before V) [Suc V ..< ?End]"
    unfolding A B update_def columnsWhenReached_def Let_def by (simp add: s)
  obtain k where p: "?f Before V = (Before @ replicate k newColumn)[?i := ?col]"
    and r: "?i < length Before + k"
      "?i = length Before \<longrightarrow> max (length Before * 2) 1 \<le> length Before + k"
    using pass2_assigns [OF g new live, of Before] by blast
  have li: "?i < length (?f Before V)" using r p by simp
  have at: "?f Before V ! ?i = ?col" using r p by simp
  have act: "isActive (?f Before V ! ?i)" unfolding at using V by (rule variable_index_active)
  note keep = foldl_pass2_keeps [OF g li act, of LVs ThisAddr NextAddr
      "map VarIdx (filter isActive Cols)" "[Suc V ..< ?End]"]
  have c1: "?i < length After" and c2: "After ! ?i = ?col"
    using keep at unfolding Af by simp_all
  have "length (?f Before V) \<le> length After"
    unfolding Af using g by (rule foldl_pass2_length)
  then have c3: "?i = length Before \<longrightarrow> max (length Before * 2) 1 \<le> length After"
    using r p by auto
  have c4: "After ! c = Before ! c" if c: "c < length Before" and a: "isActive (Before ! c)" for c
  proof -
    note k1 = pass2_keeps [OF g c a, of LVs ThisAddr NextAddr
        "map VarIdx (filter isActive Cols)" V]
    from k1 a have "isActive (?f Before V ! c)" by simp
    from foldl_pass2_keeps [OF g conjunct1 [OF k1] this, of LVs ThisAddr NextAddr
        "map VarIdx (filter isActive Cols)" "[Suc V ..< ?End]"] k1
    show ?thesis unfolding Af by simp
  qed
  show ?thesis using c1 c2 c3 c4 by blast
qed


lemma upt_0_2: "[0 ..< 2] = [0, 1]"
  by code_simp

lemma growsTo_grow: "growsTo grow"
  unfolding growsTo_def grow_def
proof (intro allI)
  fix Cols :: "Column list" and n :: nat
  show "\<exists>k. Cols @ replicate (n - length Cols) newColumn = Cols @ replicate k newColumn
          \<and> n \<le> length Cols + k"
    by (intro exI [of _ "n - length Cols"]) simp
qed

lemmas column_simps = exampleVariables_def instructionAt_def columnOf_def liveAtAddress_def
  isActive_def NullVarIdx_def newColumn_def

text \<open>
  C9, as stated, fails: pass 2 of \<open>update\<close> runs only when \<open>IncludeDefinedVars\<close> is set, and
  the driver clears the flag for the last instruction of a symbol's range. In such a call a
  variable that is live at both addresses and occupies no column is assigned none: the
  column array stays as it is, empty or with its free column.
\<close>

theorem columns_flag_counterexample:
  "liveAtAddress (exampleVariables ! 0) \<lparr>Address = 0, SectionIndex = 1\<rparr>
   \<and> liveAtAddress (exampleVariables ! 0) \<lparr>Address = 4, SectionIndex = 1\<rparr>
   \<and> update grow exampleVariables [] \<lparr>Address = 0, SectionIndex = 1\<rparr>
         \<lparr>Address = 4, SectionIndex = 1\<rparr> False = []
   \<and> update grow exampleVariables [newColumn] \<lparr>Address = 0, SectionIndex = 1\<rparr>
         \<lparr>Address = 4, SectionIndex = 1\<rparr> False = [newColumn]"
  by (simp add: update_def pass1_def column_simps)

text \<open>
  C9, amended: through any run of \<open>update\<close> calls a variable that occupies a column keeps
  that column as long as it is live at one of the two addresses of each call. In a call
  with \<open>IncludeDefinedVars\<close>, a variable that occupies no column and is live at one of the
  two addresses is assigned the free column of lowest index at the moment pass 2 comes to
  it, when pass 1 has freed the columns of the variables that are dead and the newly live
  variables of lower index have their columns, and it is in that column when the call
  returns. Where every column is occupied, that column is the first one added behind the
  others, the array being grown to twice its size at least and to one column at least. No
  occupied column is changed by the assignment. In a call without \<open>IncludeDefinedVars\<close> no
  column gets a new occupant. \<open>G\<close> is \<open>IndexedMap::grow\<close>, under its contract.
\<close>

theorem columns_kept:
  assumes "growsTo G"
  shows
   "(\<forall>c calls.
        c < length Cols \<and> isActive (Cols ! c)
        \<and> (\<forall>call \<in> set calls. liveAtAddress (LVs ! unat (VarIdx (Cols ! c))) (fst call)
               \<or> liveAtAddress (LVs ! unat (VarIdx (Cols ! c))) (fst (snd call)))
        \<longrightarrow> c < length (updates G LVs Cols calls)
            \<and> VarIdx (updates G LVs Cols calls ! c) = VarIdx (Cols ! c))
    \<and> (\<forall>V Before After.
          V < unat (word_of_nat (length LVs) :: u32)
          \<and> word_of_nat V \<notin> set (map VarIdx (filter isActive Cols))
          \<and> (liveAtAddress (LVs ! V) ThisAddr \<or> liveAtAddress (LVs ! V) NextAddr)
          \<and> Before = columnsWhenReached G LVs Cols ThisAddr NextAddr V
          \<and> After = update G LVs Cols ThisAddr NextAddr True
          \<longrightarrow> lowestFree Before < length After
              \<and> After ! lowestFree Before
                  = \<lparr>VarIdx = word_of_nat V, LiveIn = liveAtAddress (LVs ! V) ThisAddr,
                     LiveOut = liveAtAddress (LVs ! V) NextAddr, MustDrawLabel = True\<rparr>
              \<and> (\<forall>j < lowestFree Before. isActive (Before ! j))
              \<and> (lowestFree Before < length Before \<longrightarrow> \<not> isActive (Before ! lowestFree Before))
              \<and> (lowestFree Before = length Before \<longrightarrow>
                    max (length Before * 2) 1 \<le> length After)
              \<and> (\<forall>c < length Before. isActive (Before ! c) \<longrightarrow> After ! c = Before ! c))
    \<and> columnsWhenReached G LVs Cols ThisAddr NextAddr 0
         = update G LVs Cols ThisAddr NextAddr False
    \<and> columnsWhenReached G LVs Cols ThisAddr NextAddr (unat (word_of_nat (length LVs) :: u32))
         = update G LVs Cols ThisAddr NextAddr True
    \<and> length (update G LVs Cols ThisAddr NextAddr False) = length Cols
    \<and> (\<forall>c < length Cols.
          VarIdx (update G LVs Cols ThisAddr NextAddr False ! c) = VarIdx (Cols ! c)
          \<or> \<not> isActive (update G LVs Cols ThisAddr NextAddr False ! c))"
proof (intro conjI allI impI)
  fix c and calls :: "(SectionedAddress \<times> SectionedAddress \<times> bool) list"
  assume "c < length Cols \<and> isActive (Cols ! c)
        \<and> (\<forall>call \<in> set calls. liveAtAddress (LVs ! unat (VarIdx (Cols ! c))) (fst call)
               \<or> liveAtAddress (LVs ! unat (VarIdx (Cols ! c))) (fst (snd call)))"
  then have k: "c < length (updates G LVs Cols calls)
            \<and> VarIdx (updates G LVs Cols calls ! c) = VarIdx (Cols ! c)"
    using updates_keep [OF assms, of c Cols calls LVs] by blast
  from k show "c < length (updates G LVs Cols calls)" ..
  from k show "VarIdx (updates G LVs Cols calls ! c) = VarIdx (Cols ! c)" ..
next
  fix V Before After
  assume h: "V < unat (word_of_nat (length LVs) :: u32)
          \<and> word_of_nat V \<notin> set (map VarIdx (filter isActive Cols))
          \<and> (liveAtAddress (LVs ! V) ThisAddr \<or> liveAtAddress (LVs ! V) NextAddr)
          \<and> Before = columnsWhenReached G LVs Cols ThisAddr NextAddr V
          \<and> After = update G LVs Cols ThisAddr NextAddr True"
  then have u: "lowestFree Before < length After
         \<and> After ! lowestFree Before
             = \<lparr>VarIdx = word_of_nat V, LiveIn = liveAtAddress (LVs ! V) ThisAddr,
                LiveOut = liveAtAddress (LVs ! V) NextAddr, MustDrawLabel = True\<rparr>
         \<and> (lowestFree Before = length Before \<longrightarrow> max (length Before * 2) 1 \<le> length After)
         \<and> (\<forall>c < length Before. isActive (Before ! c) \<longrightarrow> After ! c = Before ! c)"
    using update_assigns [OF assms, of V LVs Cols ThisAddr NextAddr Before After] by blast
  from u show "lowestFree Before < length After" by blast
  from u show "After ! lowestFree Before
                  = \<lparr>VarIdx = word_of_nat V, LiveIn = liveAtAddress (LVs ! V) ThisAddr,
                     LiveOut = liveAtAddress (LVs ! V) NextAddr, MustDrawLabel = True\<rparr>"
    by blast
  show "isActive (Before ! j)" if "j < lowestFree Before" for j
    using that by (rule lowestFree_below)
  show "\<not> isActive (Before ! lowestFree Before)" if "lowestFree Before < length Before"
    using that by (rule lowestFree_free)
  from u show "max (length Before * 2) 1 \<le> length After" if "lowestFree Before = length Before"
    using that by blast
  from u show "After ! c = Before ! c" if "c < length Before" and "isActive (Before ! c)" for c
    using that by blast
next
  show "columnsWhenReached G LVs Cols ThisAddr NextAddr 0
         = update G LVs Cols ThisAddr NextAddr False"
    by (simp add: columnsWhenReached_def update_def)
next
  show "columnsWhenReached G LVs Cols ThisAddr NextAddr (unat (word_of_nat (length LVs) :: u32))
         = update G LVs Cols ThisAddr NextAddr True"
    by (simp add: columnsWhenReached_def update_def)
next
  show "length (update G LVs Cols ThisAddr NextAddr False) = length Cols"
    by (simp add: update_def)
next
  fix c
  assume "c < length Cols"
  then show "VarIdx (update G LVs Cols ThisAddr NextAddr False ! c) = VarIdx (Cols ! c)
          \<or> \<not> isActive (update G LVs Cols ThisAddr NextAddr False ! c)"
    by (simp add: update_def pass1_def Let_def isActive_def)
qed


theorem columns_kept_witness:
  "growsTo grow
   \<and> 0 < length [columnOf 0] \<and> isActive ([columnOf 0] ! 0)
   \<and> liveAtAddress (exampleVariables ! 0) \<lparr>Address = 4, SectionIndex = 1\<rparr>
   \<and> liveAtAddress (exampleVariables ! 0) \<lparr>Address = 8, SectionIndex = 1\<rparr>
   \<and> liveAtAddress (exampleVariables ! 0) \<lparr>Address = 12, SectionIndex = 1\<rparr>
   \<and> liveAtAddress (exampleVariables ! 0) \<lparr>Address = 16, SectionIndex = 1\<rparr>
   \<and> VarIdx (updates grow exampleVariables [columnOf 0]
               [instructionAt 4, instructionAt 8, instructionAt 12, instructionAt 16] ! 0) = 0
   \<and> (1 :: nat) < unat (word_of_nat (length exampleVariables) :: u32)
   \<and> word_of_nat 1 \<notin> set (map VarIdx (filter isActive [columnOf 0]))
   \<and> liveAtAddress (exampleVariables ! 1) \<lparr>Address = 8, SectionIndex = 1\<rparr>
   \<and> columnsWhenReached grow exampleVariables [columnOf 0] \<lparr>Address = 8, SectionIndex = 1\<rparr>
         \<lparr>Address = 12, SectionIndex = 1\<rparr> 1 = [columnOf 0]
   \<and> lowestFree [columnOf 0] = 1
   \<and> update grow exampleVariables [columnOf 0] \<lparr>Address = 8, SectionIndex = 1\<rparr>
         \<lparr>Address = 12, SectionIndex = 1\<rparr> True ! 1
       = \<lparr>VarIdx = 1, LiveIn = True, LiveOut = False, MustDrawLabel = True\<rparr>
   \<and> update grow exampleVariables [columnOf 0] \<lparr>Address = 8, SectionIndex = 1\<rparr>
         \<lparr>Address = 12, SectionIndex = 1\<rparr> True ! 0 = columnOf 0
   \<and> 2 \<le> length (update grow exampleVariables [columnOf 0] \<lparr>Address = 8, SectionIndex = 1\<rparr>
         \<lparr>Address = 12, SectionIndex = 1\<rparr> True)
   \<and> length (update grow exampleVariables [columnOf 0] \<lparr>Address = 8, SectionIndex = 1\<rparr>
         \<lparr>Address = 12, SectionIndex = 1\<rparr> False) = 1
   \<and> (VarIdx (update grow exampleVariables [columnOf 0] \<lparr>Address = 8, SectionIndex = 1\<rparr>
         \<lparr>Address = 12, SectionIndex = 1\<rparr> False ! 0) = 0
       \<or> \<not> isActive (update grow exampleVariables [columnOf 0] \<lparr>Address = 8, SectionIndex = 1\<rparr>
         \<lparr>Address = 12, SectionIndex = 1\<rparr> False ! 0))"
proof -
  let ?This = "\<lparr>Address = 8, SectionIndex = 1\<rparr> :: SectionedAddress"
  let ?Next = "\<lparr>Address = 12, SectionIndex = 1\<rparr> :: SectionedAddress"
  let ?calls = "[instructionAt 4, instructionAt 8, instructionAt 12, instructionAt 16]"
  let ?After = "update grow exampleVariables [columnOf 0] ?This ?Next True"
  have g: "growsTo grow" by (rule growsTo_grow)
  have l: "liveAtAddress (exampleVariables ! 0) \<lparr>Address = 4, SectionIndex = 1\<rparr>"
    "liveAtAddress (exampleVariables ! 0) \<lparr>Address = 8, SectionIndex = 1\<rparr>"
    "liveAtAddress (exampleVariables ! 0) \<lparr>Address = 12, SectionIndex = 1\<rparr>"
    "liveAtAddress (exampleVariables ! 0) \<lparr>Address = 16, SectionIndex = 1\<rparr>"
    "liveAtAddress (exampleVariables ! 1) \<lparr>Address = 8, SectionIndex = 1\<rparr>"
    "\<not> liveAtAddress (exampleVariables ! 1) \<lparr>Address = 12, SectionIndex = 1\<rparr>"
    by (simp_all add: column_simps)
  have a: "0 < length [columnOf 0]" "isActive ([columnOf 0] ! 0)"
    by (simp_all add: column_simps)
  have u0: "unat (VarIdx ([columnOf 0] ! 0)) = 0" by (simp add: columnOf_def)
  have live: "\<forall>call \<in> set ?calls.
      liveAtAddress (exampleVariables ! unat (VarIdx ([columnOf 0] ! 0))) (fst call)
      \<or> liveAtAddress (exampleVariables ! unat (VarIdx ([columnOf 0] ! 0))) (fst (snd call))"
    unfolding u0 using l by (simp add: instructionAt_def)
  note t = columns_kept [OF g, of "[columnOf 0]" exampleVariables ?This ?Next]
  have "0 < length (updates grow exampleVariables [columnOf 0] ?calls)
        \<and> VarIdx (updates grow exampleVariables [columnOf 0] ?calls ! 0)
            = VarIdx ([columnOf 0] ! 0)"
    using a live by (intro t [THEN conjunct1, rule_format, of 0 ?calls] conjI)
  then have k: "VarIdx (updates grow exampleVariables [columnOf 0] ?calls ! 0) = 0"
    by (simp add: columnOf_def)
  have v1: "(1 :: nat) < unat (word_of_nat (length exampleVariables) :: u32)"
    by (simp add: exampleVariables_def)
  have v2: "word_of_nat 1 \<notin> set (map VarIdx (filter isActive [columnOf 0]))"
    by (simp add: column_simps)
  have v3: "liveAtAddress (exampleVariables ! 1) ?This \<or> liveAtAddress (exampleVariables ! 1) ?Next"
    using l by simp
  have cw: "columnsWhenReached grow exampleVariables [columnOf 0] ?This ?Next 1 = [columnOf 0]"
    by (simp add: columnsWhenReached_def pass1_def pass2_def column_simps)
  have lf: "lowestFree [columnOf 0] = 1" by (simp add: lowestFree_def column_simps)
  have "lowestFree [columnOf 0] < length ?After
        \<and> ?After ! lowestFree [columnOf 0]
            = \<lparr>VarIdx = word_of_nat 1, LiveIn = liveAtAddress (exampleVariables ! 1) ?This,
               LiveOut = liveAtAddress (exampleVariables ! 1) ?Next, MustDrawLabel = True\<rparr>
        \<and> (\<forall>j < lowestFree [columnOf 0]. isActive ([columnOf 0] ! j))
        \<and> (lowestFree [columnOf 0] < length [columnOf 0] \<longrightarrow>
              \<not> isActive ([columnOf 0] ! lowestFree [columnOf 0]))
        \<and> (lowestFree [columnOf 0] = length [columnOf 0] \<longrightarrow>
              max (length [columnOf 0] * 2) 1 \<le> length ?After)
        \<and> (\<forall>c < length [columnOf 0]. isActive ([columnOf 0] ! c) \<longrightarrow>
              ?After ! c = [columnOf 0] ! c)"
    using v1 v2 v3 cw [symmetric]
    by (intro t [THEN conjunct2, THEN conjunct1, rule_format, of 1 "[columnOf 0]" ?After]
        conjI refl)
  then have n: "?After ! 1 = \<lparr>VarIdx = 1, LiveIn = True, LiveOut = False, MustDrawLabel = True\<rparr>"
    and o: "?After ! 0 = columnOf 0" and s: "2 \<le> length ?After"
    using l a unfolding lf by simp_all
  let ?Same = "update grow exampleVariables [columnOf 0] ?This ?Next False"
  have f1: "length ?Same = 1"
    using t [THEN conjunct2, THEN conjunct2, THEN conjunct2, THEN conjunct2, THEN conjunct1]
    by simp
  have "VarIdx (?Same ! 0) = VarIdx ([columnOf 0] ! 0) \<or> \<not> isActive (?Same ! 0)"
    using a(1)
    by (rule t [THEN conjunct2, THEN conjunct2, THEN conjunct2, THEN conjunct2, THEN conjunct2,
          rule_format])
  then have f2: "VarIdx (?Same ! 0) = 0 \<or> \<not> isActive (?Same ! 0)"
    by (simp add: columnOf_def)
  show ?thesis
    using g a l(1-5) k v1 v2 cw lf n o s f1 f2 by (intro conjI)
qed

section \<open>The range of a symbol\<close>

text \<open>
  A symbol's range lies within the section, so its end is within the section contents
  when these have the section's size.
\<close>

lemma symbolRange_within:
  assumes r: "symbolRange SecAddr SectSize StartAddr StopAddr Symbols SI = Some (S, E)"
    and nowrap: "unat SecAddr + unat SectSize < 2 ^ 64"
  shows "S < E \<and> E \<le> SectSize"
proof -
  define A where "A = Addr (Symbols ! SI)"
  define E0 where "E0 = min (SecAddr + SectSize) StopAddr"
  define E1 where "E1 = (if SI + 1 < length Symbols then min E0 (Addr (Symbols ! (SI + 1))) else E0)"
  have c: "SecAddr \<le> A" "A < E1" and S: "S = A - SecAddr" and E: "E = E1 - SecAddr"
    using r unfolding symbolRange_def Let_def A_def [symmetric] E0_def [symmetric]
      E1_def [symmetric]
    by (auto split: if_splits)
  have "E1 \<le> E0" by (simp add: E1_def)
  also have "E0 \<le> SecAddr + SectSize" by (simp add: E0_def)
  finally have le: "E1 \<le> SecAddr + SectSize" .
  have sum: "unat (SecAddr + SectSize) = unat SecAddr + unat SectSize"
    using nowrap by (simp add: unat_add_lem [THEN iffD1])
  have u: "unat SecAddr \<le> unat A" "unat A < unat E1" "unat E1 \<le> unat SecAddr + unat SectSize"
    using c le sum by (simp_all add: word_le_nat_alt word_less_nat_alt)
  have "unat S = unat A - unat SecAddr" "unat E = unat E1 - unat SecAddr"
    using c u by (simp_all add: S E unat_sub word_le_nat_alt)
  then show ?thesis using u by (simp add: word_le_nat_alt word_less_nat_alt) linarith
qed


end
